theory Spec2Isabelle
  imports Complex_Main "HOL-Library.Word" "HOL-Library.Code_Target_Numeral"
begin

section \<open>Data model of SLIC.cpp\<close>

text \<open>
  The class \<^verbatim>\<open>SLIC\<close> of \<^verbatim>\<open>SLIC.cpp\<close> is embedded as a record that is passed
  through every member function and returned updated.

  \<^item> \<^verbatim>\<open>cv::Vec3b\<close> is a triple of bytes; \<^verbatim>\<open>val[k]\<close> promotes a byte to \<^verbatim>\<open>int\<close>.
  \<^item> \<^verbatim>\<open>cv::Mat\<close> is read-only here: its \<^verbatim>\<open>rows\<close>, \<^verbatim>\<open>cols\<close> and the accessor
    \<^verbatim>\<open>image.at<Vec3b>(y, x)\<close>.
  \<^item> \<^verbatim>\<open>cv::Point\<close> is a pair \<open>(x, y)\<close> of \<^verbatim>\<open>int\<close>.
  \<^item> \<^verbatim>\<open>double\<close> is modelled by \<open>real\<close>: exact arithmetic, no rounding, no infinities
    and no NaN. A division of doubles whose divisor is zero has no value in this model
    and is the fault \<open>DivisionByZero\<close>, as is an integer division by zero.
  \<^item> \<^verbatim>\<open>unsigned\<close> counters and sizes are \<open>nat\<close> and \<^verbatim>\<open>int\<close> coordinates are \<open>int\<close>,
    both unbounded; where the source's arithmetic wraps for small values or mixes the
    two types (\<^verbatim>\<open>iterationNumber - 1\<close>, \<^verbatim>\<open>samplingStep * samplingStep\<close>, the counters
    \<^verbatim>\<open>int y = samplingStep\<close> of the seeding loops) the wrap-around is written out.
  \<^item> \<^verbatim>\<open>std::vector\<close> is a list. \<^verbatim>\<open>pixelCluster\<close> holds \<^verbatim>\<open>int\<close> (the sentinel is
    \<open>-1\<close>), \<^verbatim>\<open>pixelReachedByClusters\<close> holds bytes. \<^verbatim>\<open>operator[]\<close> is unchecked in
    the source. The copy constructor is modelled with every access checked; elsewhere
    the source guards its indices by the image bounds, the model reads with \<open>xs ! i\<close>
    and writes with \<open>xs[i := v]\<close> (which leaves a list unchanged past its end), and a
    theorem that depends on such a read assumes that the vectors have the size of the
    image.
  \<^item> A loop that may not end (the seeding loops, the \<^verbatim>\<open>do ... while\<close>, the growth of a
    segment) is a partial function into \<open>option\<close>: not returning is \<open>None\<close>.

  The header \<^verbatim>\<open>SLIC.h\<close> is not part of the sources. Modelled from the spec: the two
  enumerations below list the termination policies and the video modes of the spec's
  configuration surface; the member types are the ones the uses in \<^verbatim>\<open>SLIC.cpp\<close>
  force (\<^verbatim>\<open>tbb::parallel_for<unsigned>(0, clustersNumber, ...)\<close>,
  \<^verbatim>\<open>static_cast<unsigned>(pixelsOfSameCluster.size())\<close>, \<^verbatim>\<open>pixelCluster.assign(pixelsNumber, -1)\<close>,
  \<^verbatim>\<open>distanceFromClusterCentre.assign(pixelsNumber, DBL_MAX)\<close>).
  The debug statistics (\<^verbatim>\<open>averageError\<close>, \<^verbatim>\<open>minIterations\<close>, ...) are only read by
  \<^verbatim>\<open>drawInformation\<close> and are left out of the record.
\<close>

type_synonym Vec3b = "8 word \<times> 8 word \<times> 8 word"

type_synonym Point = "int \<times> int"

definition val0 :: "Vec3b \<Rightarrow> int" where
  "val0 c = uint (fst c)"

definition val1 :: "Vec3b \<Rightarrow> int" where
  "val1 c = uint (fst (snd c))"

definition val2 :: "Vec3b \<Rightarrow> int" where
  "val2 c = uint (snd (snd c))"

record Mat =
  rows :: int
  cols :: int
  at_Vec3b :: "int \<Rightarrow> int \<Rightarrow> Vec3b"

datatype SLICElaborationMode = ERROR_THRESHOLD | FIXED_ITERATIONS

datatype VideoElaborationMode =
  INDEPENDENT | CONNECTED | NOISE | KEY_FRAMES | KEY_FRAMES_NOISE
  | ADD_SUPERPIXELS | ADD_SUPERPIXELS_NOISE

datatype fault = OutOfBounds | DivisionByZero

record SLIC =
  iterationIndex :: nat
  pixelsNumber :: nat
  clustersNumber :: nat
  samplingStep :: nat
  spatialDistanceWeight :: nat
  distanceFactor :: real
  totalResidualError :: real
  errorThreshold :: real
  framesNumber :: nat
  pixelCluster :: "int list"
  distanceFromClusterCentre :: "real list"
  pixelReachedByClusters :: "8 word list"
  clusterCentres :: "real list"
  previousClusterCentres :: "real list"
  pixelsOfSameCluster :: "nat list"
  residualError :: "real list"

text \<open>
  The square root has no executable definition; it is kept as it stands when a concrete
  state is evaluated.
\<close>

declare sqrt_def [code del]

definition UINT_MAX :: nat where
  "UINT_MAX = 4294967295"

text \<open>\<^verbatim>\<open>DBL_MAX\<close> is \<^verbatim>\<open>(2 - 2^-52) * 2^1023\<close>, written out as a numeral.\<close>

definition DBL_MAX :: real where
  "DBL_MAX = 179769313486231570814527423731704356798070567525844996598917476803157260780028538760589558632766878171540458953514382464234321326889464182768467546703537516986049910576551282076245490090389328944075868508455133942304583236903222948165808559332123348274797826204144723168738177180919299881250404026184124858368"

text \<open>Sequencing of fallible steps: the first fault ends the computation.\<close>

definition bindF :: "fault + 'a \<Rightarrow> ('a \<Rightarrow> fault + 'b) \<Rightarrow> fault + 'b" where
  "bindF m f = (case m of Inl e \<Rightarrow> Inl e | Inr v \<Rightarrow> f v)"

text \<open>A counted \<^verbatim>\<open>for\<close> loop whose body can fault.\<close>

fun for_each :: "nat list \<Rightarrow> (nat \<Rightarrow> 's \<Rightarrow> fault + 's) \<Rightarrow> 's \<Rightarrow> fault + 's" where
  "for_each [] f s = Inr s"
| "for_each (n # ns) f s = bindF (f n s) (for_each ns f)"

section \<open>The copy constructor, with every element access checked\<close>

text \<open>
  \<^verbatim>\<open>operator[]\<close> of \<^verbatim>\<open>std::vector\<close> is unchecked; an index past the size is undefined
  behaviour. For the copy constructor the accesses are modelled checked, so that an
  out-of-range access is the fault \<open>OutOfBounds\<close>.
\<close>

definition vec_get :: "'a list \<Rightarrow> nat \<Rightarrow> fault + 'a" where
  "vec_get v n = (if n < length v then Inr (v ! n) else Inl OutOfBounds)"

definition vec_set :: "'a list \<Rightarrow> nat \<Rightarrow> 'a \<Rightarrow> fault + 'a list" where
  "vec_set v n a = (if n < length v then Inr (v[n := a]) else Inl OutOfBounds)"

definition resize :: "nat \<Rightarrow> 'a \<Rightarrow> 'a list \<Rightarrow> 'a list" where
  "resize n d v = take n v @ replicate (n - length v) d"

text \<open>Body of the first loop: lines 59 to 61.\<close>

definition copy_pixel :: "SLIC \<Rightarrow> nat \<Rightarrow> SLIC \<Rightarrow> fault + SLIC" where
  "copy_pixel otherSLIC n this =
     bindF (vec_get (pixelCluster otherSLIC) n) (\<lambda>c.
     bindF (vec_set (pixelCluster this) n c) (\<lambda>pc.
     bindF (vec_get (pixelReachedByClusters otherSLIC) n) (\<lambda>r.
     bindF (vec_set (pixelReachedByClusters this) n r) (\<lambda>pr.
     bindF (vec_get (distanceFromClusterCentre otherSLIC) n) (\<lambda>d.
     bindF (vec_set (distanceFromClusterCentre this) n d) (\<lambda>dc.
       Inr (this\<lparr>pixelCluster := pc, pixelReachedByClusters := pr,
                  distanceFromClusterCentre := dc\<rparr>)))))))"

text \<open>Body of the second loop: lines 66 and 67.\<close>

definition copy_cluster :: "SLIC \<Rightarrow> nat \<Rightarrow> SLIC \<Rightarrow> fault + SLIC" where
  "copy_cluster otherSLIC n this =
     bindF (vec_get (pixelsOfSameCluster otherSLIC) n) (\<lambda>c.
     bindF (vec_set (pixelsOfSameCluster this) n c) (\<lambda>ps.
     bindF (vec_get (residualError otherSLIC) n) (\<lambda>r.
     bindF (vec_set (residualError this) n r) (\<lambda>re.
       Inr (this\<lparr>pixelsOfSameCluster := ps, residualError := re\<rparr>)))))"

text \<open>Body of the third loop: lines 72 and 73.\<close>

definition copy_centre :: "SLIC \<Rightarrow> nat \<Rightarrow> SLIC \<Rightarrow> fault + SLIC" where
  "copy_centre otherSLIC n this =
     bindF (vec_get (clusterCentres otherSLIC) n) (\<lambda>c.
     bindF (vec_set (clusterCentres this) n c) (\<lambda>cc.
     bindF (vec_get (previousClusterCentres otherSLIC) n) (\<lambda>p.
     bindF (vec_set (previousClusterCentres this) n p) (\<lambda>pcc.
       Inr (this\<lparr>clusterCentres := cc, previousClusterCentres := pcc\<rparr>)))))"

text \<open>
  \<^verbatim>\<open>SLIC::SLIC(const SLIC& otherSLIC)\<close>. The vectors of the object under construction
  start empty; six of them are resized (lines 50 to 55), \<^verbatim>\<open>pixelReachedByClusters\<close>
  is not.
\<close>

definition SLIC_copy :: "SLIC \<Rightarrow> fault + SLIC" where
  "SLIC_copy otherSLIC =
     (let this = \<lparr>
        iterationIndex = iterationIndex otherSLIC,
        pixelsNumber = pixelsNumber otherSLIC,
        clustersNumber = clustersNumber otherSLIC,
        samplingStep = samplingStep otherSLIC,
        spatialDistanceWeight = spatialDistanceWeight otherSLIC,
        distanceFactor = distanceFactor otherSLIC,
        totalResidualError = totalResidualError otherSLIC,
        errorThreshold = errorThreshold otherSLIC,
        framesNumber = framesNumber otherSLIC,
        pixelCluster = resize (pixelsNumber otherSLIC) 0 [],
        distanceFromClusterCentre = resize (pixelsNumber otherSLIC) 0 [],
        pixelReachedByClusters = [],
        clusterCentres = resize (length (clusterCentres otherSLIC)) 0 [],
        previousClusterCentres = resize (length (previousClusterCentres otherSLIC)) 0 [],
        pixelsOfSameCluster = resize (length (pixelsOfSameCluster otherSLIC)) 0 [],
        residualError = resize (length (residualError otherSLIC)) 0 []
      \<rparr>
      in bindF (for_each [0..<pixelsNumber otherSLIC] (copy_pixel otherSLIC) this) (\<lambda>this.
         bindF (for_each [0..<clustersNumber otherSLIC] (copy_cluster otherSLIC) this) (\<lambda>this.
           for_each [0..<5 * clustersNumber otherSLIC] (copy_centre otherSLIC) this)))"

text \<open>
  A well-formed one-pixel, zero-cluster object, as \<^verbatim>\<open>initializeSLICData\<close> leaves it in
  \<^verbatim>\<open>ADD_SUPERPIXELS\<close> mode on a 1x1 image.
\<close>

definition one_pixel_SLIC :: SLIC where
  "one_pixel_SLIC = \<lparr>
     iterationIndex = 0, pixelsNumber = 1, clustersNumber = 0, samplingStep = 1,
     spatialDistanceWeight = 1, distanceFactor = 1, totalResidualError = DBL_MAX,
     errorThreshold = 0, framesNumber = 0,
     pixelCluster = [-1], distanceFromClusterCentre = [DBL_MAX],
     pixelReachedByClusters = [255],
     clusterCentres = [], previousClusterCentres = [],
     pixelsOfSameCluster = [], residualError = [] \<rparr>"

section \<open>Seeding: clearSLICData, findLowestGradient, initializeSLICData\<close>

definition clearSLICData :: "SLIC \<Rightarrow> SLIC" where
  "clearSLICData st = st\<lparr>
     iterationIndex := 0, clustersNumber := 0, pixelsNumber := 0, samplingStep := 0,
     spatialDistanceWeight := 0, distanceFactor := 0, totalResidualError := 0,
     errorThreshold := 0, framesNumber := 0,
     clusterCentres := [], previousClusterCentres := [],
     pixelsOfSameCluster := [], residualError := []\<rparr>"

text \<open>
  \<^verbatim>\<open>tempGradient\<close> of \<^verbatim>\<open>findLowestGradient\<close> at the pixel \<open>(x, y)\<close>: the bytes are
  promoted to \<^verbatim>\<open>int\<close>, the sum of the two squares is converted to \<^verbatim>\<open>unsigned\<close>.
\<close>

definition tempGradient :: "Mat \<Rightarrow> int \<Rightarrow> int \<Rightarrow> nat" where
  "tempGradient img x y = nat ((
     (val0 (at_Vec3b img y (x + 1)) - val0 (at_Vec3b img y (x - 1))) *
     (val0 (at_Vec3b img y (x + 1)) - val0 (at_Vec3b img y (x - 1))) +
     (val0 (at_Vec3b img (y - 1) x) - val0 (at_Vec3b img (y + 1) x)) *
     (val0 (at_Vec3b img (y - 1) x) - val0 (at_Vec3b img (y + 1) x))) mod 2 ^ 32)"

text \<open>
  One pass of the inner loop body of \<^verbatim>\<open>findLowestGradient\<close>; the accumulator is
  \<^verbatim>\<open>(lowestGradient, lowestGradientPoint)\<close>.
\<close>

definition lowest_step :: "Mat \<Rightarrow> int \<Rightarrow> nat \<times> Point \<Rightarrow> int \<Rightarrow> nat \<times> Point" where
  "lowest_step img y acc x =
     (if x < 1 \<or> y < 1 then acc
      else if tempGradient img x y < fst acc then (tempGradient img x y, (x, y))
      else acc)"

text \<open>
  The loop \<^verbatim>\<open>for (int y = centre.y - 1; y <= centre.y + 1 && y < image.rows - 1; ++y)\<close>
  runs over the integers from \<open>centre.y - 1\<close> to \<open>min (centre.y + 1) (image.rows - 2)\<close>,
  and likewise for \<open>x\<close>.
\<close>

definition lowest_row :: "Mat \<Rightarrow> Point \<Rightarrow> nat \<times> Point \<Rightarrow> int \<Rightarrow> nat \<times> Point" where
  "lowest_row img centre acc y =
     foldl (lowest_step img y) acc [fst centre - 1 .. min (fst centre + 1) (cols img - 2)]"

definition findLowestGradient :: "Mat \<Rightarrow> Point \<Rightarrow> Point" where
  "findLowestGradient img centre =
     snd (foldl (lowest_row img centre) (UINT_MAX, centre)
            [snd centre - 1 .. min (snd centre + 1) (rows img - 2)])"

text \<open>Lines 171 to 194: the body of the seeding loops at the grid point \<open>p\<close>.\<close>

definition push_seed :: "Mat \<Rightarrow> Point \<Rightarrow> SLIC \<Rightarrow> SLIC" where
  "push_seed img p st =
     (let lowestGradientPixel = findLowestGradient img p;
          tempPixelColor = at_Vec3b img (snd lowestGradientPixel) (fst lowestGradientPixel);
          centre = [real_of_int (val0 tempPixelColor), real_of_int (val1 tempPixelColor),
                    real_of_int (val2 tempPixelColor),
                    real_of_int (fst lowestGradientPixel), real_of_int (snd lowestGradientPixel)]
      in st\<lparr>clusterCentres := clusterCentres st @ centre,
             previousClusterCentres := previousClusterCentres st @ centre,
             pixelsOfSameCluster := pixelsOfSameCluster st @ [0],
             residualError := residualError st @ [0]\<rparr>)"

text \<open>
  The conversion of an \<^verbatim>\<open>unsigned\<close> value to \<^verbatim>\<open>int\<close> (32 bits, two's complement), as in
  \<^verbatim>\<open>int y = samplingStep\<close> and in \<^verbatim>\<open>y += samplingStep\<close>, where the sum of the \<^verbatim>\<open>int\<close>
  and the \<^verbatim>\<open>unsigned\<close> is computed as \<^verbatim>\<open>unsigned\<close> and stored into the \<^verbatim>\<open>int\<close>. The
  argument is the value before the reduction modulo \<open>2\<^sup>3\<^sup>2\<close>.
\<close>

definition int_of_unsigned :: "int \<Rightarrow> int" where
  "int_of_unsigned u =
     (if u mod 4294967296 < 2147483648 then u mod 4294967296
      else u mod 4294967296 - 4294967296)"

text \<open>
  The two seeding loops (lines 167 and 168); \<open>x\<close> and \<open>y\<close> are the \<^verbatim>\<open>int\<close> counters.
  With \<^verbatim>\<open>samplingStep = 0\<close> they do not advance; not returning is the value \<open>None\<close>.
\<close>

partial_function (option) seed_row :: "Mat \<Rightarrow> nat \<Rightarrow> int \<Rightarrow> int \<Rightarrow> SLIC \<Rightarrow> SLIC option" where
  "seed_row img S y x st =
     (if x < cols img
      then seed_row img S y (int_of_unsigned (x + int S)) (push_seed img (x, y) st)
      else Some st)"

declare seed_row.simps [code]

partial_function (option) seed_grid :: "Mat \<Rightarrow> nat \<Rightarrow> int \<Rightarrow> SLIC \<Rightarrow> SLIC option" where
  "seed_grid img S y st =
     (if y < rows img
      then Option.bind (seed_row img S y (int_of_unsigned (int S)) st)
             (seed_grid img S (int_of_unsigned (y + int S)))
      else Some st)"

declare seed_grid.simps [code]

definition is_add_mode :: "VideoElaborationMode \<Rightarrow> bool" where
  "is_add_mode videoMode = (videoMode = ADD_SUPERPIXELS \<or> videoMode = ADD_SUPERPIXELS_NOISE)"

definition is_key_mode :: "VideoElaborationMode \<Rightarrow> bool" where
  "is_key_mode videoMode = (videoMode = KEY_FRAMES \<or> videoMode = KEY_FRAMES_NOISE)"

definition is_noise_mode :: "VideoElaborationMode \<Rightarrow> bool" where
  "is_noise_mode videoMode =
     (videoMode = NOISE \<or> videoMode = KEY_FRAMES_NOISE \<or> videoMode = ADD_SUPERPIXELS_NOISE)"

text \<open>
  The condition of line 132, evaluated left to right with short-circuit. The remainder
  \<^verbatim>\<open>framesNumber % keyFramesRatio\<close> is only computed in the key-frame modes when the
  first two disjuncts are false; with \<^verbatim>\<open>keyFramesRatio = 0\<close> it is a division by zero.
\<close>

definition must_reseed :: "VideoElaborationMode \<Rightarrow> nat \<Rightarrow> bool \<Rightarrow> SLIC \<Rightarrow> fault + bool" where
  "must_reseed videoMode keyFramesRatio connectedFrames st =
     (if connectedFrames = False \<or> clusterCentres st = [] then Inr True
      else if is_key_mode videoMode \<and> keyFramesRatio = 0 then Inl DivisionByZero
      else Inr ((is_key_mode videoMode \<and> framesNumber st mod keyFramesRatio = 0) \<or>
                (is_add_mode videoMode \<and> clustersNumber st > 1300)))"

text \<open>
  Lines 139 to 163: the state before the seeding loops. \<^verbatim>\<open>samplingStep * samplingStep\<close>
  is a product of \<^verbatim>\<open>unsigned\<close>.
\<close>

definition reset_for_seeding :: "Mat \<Rightarrow> nat \<Rightarrow> nat \<Rightarrow> real \<Rightarrow> SLIC \<Rightarrow> fault + SLIC" where
  "reset_for_seeding img S w thr st =
     (let st1 = (if clusterCentres st = []
                 then st\<lparr>pixelCluster := [], distanceFromClusterCentre := [],
                         pixelReachedByClusters := []\<rparr>
                 else st);
          st2 = clearSLICData st1;
          n = nat (rows img * cols img)
      in if (S * S) mod 2 ^ 32 = 0 then Inl DivisionByZero
         else Inr (st2\<lparr>
           pixelsNumber := n, samplingStep := S, spatialDistanceWeight := w,
           distanceFactor := 1 * real w * real w / real ((S * S) mod 2 ^ 32),
           errorThreshold := thr,
           pixelCluster := replicate n (- 1),
           distanceFromClusterCentre := replicate n DBL_MAX\<rparr>))"

text \<open>
  Lines 212 to 216. \<open>randomGen k\<close> is the \<open>k\<close>-th sample the generator
  \<^verbatim>\<open>RandNormal randomGen(0.0, GaussianStdDev)\<close> returns in this call.
\<close>

definition jitter_centre :: "(nat \<Rightarrow> real) \<Rightarrow> real list \<Rightarrow> nat \<Rightarrow> real list" where
  "jitter_centre randomGen cc n =
     (let cc1 = cc[5 * n + 3 := cc ! (5 * n + 3) + randomGen (2 * n)]
      in cc1[5 * n + 4 := cc1 ! (5 * n + 4) + randomGen (2 * n + 1)])"

definition add_noise :: "(nat \<Rightarrow> real) \<Rightarrow> SLIC \<Rightarrow> SLIC" where
  "add_noise randomGen st =
     st\<lparr>clusterCentres := foldl (jitter_centre randomGen) (clusterCentres st)
                              [0..<clustersNumber st]\<rparr>"

text \<open>Lines 219 to 224, common to all branches.\<close>

definition finish_init :: "VideoElaborationMode \<Rightarrow> SLIC \<Rightarrow> SLIC" where
  "finish_init videoMode st =
     (let st1 = st\<lparr>totalResidualError := DBL_MAX\<rparr>
      in if is_add_mode videoMode
         then st1\<lparr>pixelReachedByClusters := replicate (pixelsNumber st1) 255\<rparr>
         else st1)"

text \<open>
  \<^verbatim>\<open>initializeSLICData\<close>. The result is \<open>None\<close> when the seeding loops do not return,
  \<open>Some (Inl e)\<close> on a fault and \<open>Some (Inr st)\<close> otherwise. The parameter
  \<^verbatim>\<open>GaussianStdDev\<close> only configures the generator, whose samples are \<open>randomGen\<close>.
\<close>

definition initializeSLICData ::
  "Mat \<Rightarrow> nat \<Rightarrow> nat \<Rightarrow> real \<Rightarrow> VideoElaborationMode \<Rightarrow> nat \<Rightarrow> (nat \<Rightarrow> real) \<Rightarrow> bool
     \<Rightarrow> SLIC \<Rightarrow> (fault + SLIC) option" where
  "initializeSLICData img S w thr videoMode keyFramesRatio randomGen connectedFrames st =
     (case must_reseed videoMode keyFramesRatio connectedFrames st of
        Inl e \<Rightarrow> Some (Inl e)
      | Inr True \<Rightarrow>
          (case reset_for_seeding img S w thr st of
             Inl e \<Rightarrow> Some (Inl e)
           | Inr st1 \<Rightarrow>
               map_option
                 (\<lambda>st2. Inr (finish_init videoMode
                    (st2\<lparr>clustersNumber := length (pixelsOfSameCluster st2)\<rparr>)))
                 (seed_grid img S (int_of_unsigned (int S)) st1))
      | Inr False \<Rightarrow>
          Some (Inr (finish_init videoMode
            (if is_noise_mode videoMode then add_noise randomGen st else st))))"

section \<open>The assignment step: computeDistance and the window scan\<close>

definition computeDistance :: "SLIC \<Rightarrow> nat \<Rightarrow> Point \<Rightarrow> Vec3b \<Rightarrow> real" where
  "computeDistance st centreIndex pixelPosition pixelColor =
     (let cc = clusterCentres st;
          colorDistance =
            (cc ! (5 * centreIndex) - real_of_int (val0 pixelColor)) *
            (cc ! (5 * centreIndex) - real_of_int (val0 pixelColor)) +
            (cc ! (5 * centreIndex + 1) - real_of_int (val1 pixelColor)) *
            (cc ! (5 * centreIndex + 1) - real_of_int (val1 pixelColor)) +
            (cc ! (5 * centreIndex + 2) - real_of_int (val2 pixelColor)) *
            (cc ! (5 * centreIndex + 2) - real_of_int (val2 pixelColor));
          spaceDistance =
            (cc ! (5 * centreIndex + 3) - real_of_int (fst pixelPosition)) *
            (cc ! (5 * centreIndex + 3) - real_of_int (fst pixelPosition)) +
            (cc ! (5 * centreIndex + 4) - real_of_int (snd pixelPosition)) *
            (cc ! (5 * centreIndex + 4) - real_of_int (snd pixelPosition))
      in colorDistance + distanceFactor st * spaceDistance)"

text \<open>\<^verbatim>\<open>static_cast<int>\<close> of a double truncates towards zero.\<close>

definition static_cast_int :: "real \<Rightarrow> int" where
  "static_cast_int r = (if 0 \<le> r then \<lfloor>r\<rfloor> else \<lceil>r\<rceil>)"

text \<open>
  The values of the loop variable of
  \<^verbatim>\<open>for (int y = static_cast<int>(c) - samplingStep - 1; y < c + samplingStep + 1; ++y)\<close>
  for the centre coordinate \<open>c\<close>, which the loop body does not change: the integers
  from the start value that are below the real bound.
\<close>

definition window :: "real \<Rightarrow> nat \<Rightarrow> int list" where
  "window c S = [static_cast_int c - int S - 1 .. \<lceil>c + real S + 1\<rceil> - 1]"

text \<open>Lines 326 to 345: the body of the window scan for the centre \<open>centreIndex\<close>.\<close>

definition visit_pixel :: "Mat \<Rightarrow> VideoElaborationMode \<Rightarrow> nat \<Rightarrow> int \<Rightarrow> SLIC \<Rightarrow> int \<Rightarrow> SLIC" where
  "visit_pixel img videoMode centreIndex y st x =
     (if x \<ge> 0 \<and> x < cols img \<and> y \<ge> 0 \<and> y < rows img then
        (let i = nat (y * cols img + x);
             tempDistance = computeDistance st centreIndex (x, y) (at_Vec3b img y x);
             st1 = (if is_add_mode videoMode
                    then st\<lparr>pixelReachedByClusters := (pixelReachedByClusters st)[i := 0]\<rparr>
                    else st)
         in if tempDistance < distanceFromClusterCentre st1 ! i
            then st1\<lparr>distanceFromClusterCentre := (distanceFromClusterCentre st1)[i := tempDistance],
                     pixelCluster := (pixelCluster st1)[i := int centreIndex]\<rparr>
            else st1)
      else st)"

definition scan_row :: "Mat \<Rightarrow> nat \<Rightarrow> VideoElaborationMode \<Rightarrow> nat \<Rightarrow> SLIC \<Rightarrow> int \<Rightarrow> SLIC" where
  "scan_row img S videoMode centreIndex st y =
     foldl (visit_pixel img videoMode centreIndex y) st
       (window (clusterCentres st ! (5 * centreIndex + 3)) S)"

definition scan_window :: "Mat \<Rightarrow> nat \<Rightarrow> VideoElaborationMode \<Rightarrow> SLIC \<Rightarrow> nat \<Rightarrow> SLIC" where
  "scan_window img S videoMode st centreIndex =
     foldl (scan_row img S videoMode centreIndex) st
       (window (clusterCentres st ! (5 * centreIndex + 4)) S)"

text \<open>
  Lines 315 to 347. \<^verbatim>\<open>tbb::parallel_for\<close> runs the body once for every centre index;
  the model runs the bodies one after the other in the order \<open>order\<close>, a list of the
  indices below \<open>clustersNumber\<close>. Interleavings of two bodies are not modelled.
\<close>

definition assignPixels :: "nat list \<Rightarrow> Mat \<Rightarrow> nat \<Rightarrow> VideoElaborationMode \<Rightarrow> SLIC \<Rightarrow> SLIC" where
  "assignPixels order img S videoMode st =
     foldl (scan_window img S videoMode)
       (st\<lparr>distanceFromClusterCentre := replicate (pixelsNumber st) DBL_MAX\<rparr>) order"

section \<open>The update step\<close>

text \<open>Lines 371 to 387 (and 652 to 668): one pixel added to its centre's sums.\<close>

definition accumulate_pixel :: "Mat \<Rightarrow> int \<Rightarrow> SLIC \<Rightarrow> int \<Rightarrow> SLIC" where
  "accumulate_pixel img y st x =
     (let currentPixelCluster = pixelCluster st ! nat (y * cols img + x)
      in if currentPixelCluster \<noteq> - 1 then
           (let k = nat (5 * currentPixelCluster);
                pixelColor = at_Vec3b img y x;
                cc0 = clusterCentres st;
                cc1 = cc0[k := cc0 ! k + real_of_int (val0 pixelColor)];
                cc2 = cc1[k + 1 := cc1 ! (k + 1) + real_of_int (val1 pixelColor)];
                cc3 = cc2[k + 2 := cc2 ! (k + 2) + real_of_int (val2 pixelColor)];
                cc4 = cc3[k + 3 := cc3 ! (k + 3) + real_of_int x];
                cc5 = cc4[k + 4 := cc4 ! (k + 4) + real_of_int y];
                ps = pixelsOfSameCluster st
            in st\<lparr>clusterCentres := cc5,
                   pixelsOfSameCluster :=
                     ps[nat currentPixelCluster := ps ! nat currentPixelCluster + 1]\<rparr>)
         else st)"

definition accumulate_row :: "Mat \<Rightarrow> SLIC \<Rightarrow> int \<Rightarrow> SLIC" where
  "accumulate_row img st y = foldl (accumulate_pixel img y) st [0 .. cols img - 1]"

definition accumulate :: "Mat \<Rightarrow> SLIC \<Rightarrow> SLIC" where
  "accumulate img st = foldl (accumulate_row img) st [0 .. rows img - 1]"

text \<open>
  A division of doubles. In the source it never traps; a zero divisor would give an
  infinity or a NaN, which the model reports as a fault.
\<close>

definition div_double :: "real \<Rightarrow> real \<Rightarrow> fault + real" where
  "div_double a b = (if b = 0 then Inl DivisionByZero else Inr (a / b))"

text \<open>Lines 394 to 401 (and 675 to 682): the normalization of one centre.\<close>

definition normalize_centre :: "nat \<Rightarrow> SLIC \<Rightarrow> fault + SLIC" where
  "normalize_centre centreIndex st =
     (if pixelsOfSameCluster st ! centreIndex \<noteq> 0 then
        (let n = real (pixelsOfSameCluster st ! centreIndex);
             cc = clusterCentres st
         in bindF (div_double (cc ! (5 * centreIndex)) n) (\<lambda>v0.
            bindF (div_double (cc ! (5 * centreIndex + 1)) n) (\<lambda>v1.
            bindF (div_double (cc ! (5 * centreIndex + 2)) n) (\<lambda>v2.
            bindF (div_double (cc ! (5 * centreIndex + 3)) n) (\<lambda>v3.
            bindF (div_double (cc ! (5 * centreIndex + 4)) n) (\<lambda>v4.
              Inr (st\<lparr>clusterCentres :=
                     cc[5 * centreIndex := v0, 5 * centreIndex + 1 := v1,
                        5 * centreIndex + 2 := v2, 5 * centreIndex + 3 := v3,
                        5 * centreIndex + 4 := v4]\<rparr>)))))))
      else Inr st)"

definition normalizeCentres :: "SLIC \<Rightarrow> fault + SLIC" where
  "normalizeCentres st = for_each [0..<clustersNumber st] normalize_centre st"

text \<open>Lines 364 to 402 of \<^verbatim>\<open>createSuperpixels\<close>.\<close>

definition updateCentres :: "Mat \<Rightarrow> SLIC \<Rightarrow> fault + SLIC" where
  "updateCentres img st =
     normalizeCentres (accumulate img
       (st\<lparr>clusterCentres := replicate (clustersNumber st * 5) 0,
           pixelsOfSameCluster := replicate (clustersNumber st) 0\<rparr>))"

text \<open>Lines 418 to 429: residual error and snapshot of one centre.\<close>

definition residual_centre :: "SLIC \<Rightarrow> nat \<Rightarrow> SLIC" where
  "residual_centre st centreIndex =
     (let cc = clusterCentres st; pcc = previousClusterCentres st
      in st\<lparr>residualError := (residualError st)[centreIndex := sqrt (
               (cc ! (5 * centreIndex + 4) - pcc ! (5 * centreIndex + 4)) *
               (cc ! (5 * centreIndex + 4) - pcc ! (5 * centreIndex + 4)) +
               (cc ! (5 * centreIndex + 3) - pcc ! (5 * centreIndex + 3)) *
               (cc ! (5 * centreIndex + 3) - pcc ! (5 * centreIndex + 3)))],
             previousClusterCentres :=
               pcc[5 * centreIndex := cc ! (5 * centreIndex),
                   5 * centreIndex + 1 := cc ! (5 * centreIndex + 1),
                   5 * centreIndex + 2 := cc ! (5 * centreIndex + 2),
                   5 * centreIndex + 3 := cc ! (5 * centreIndex + 3),
                   5 * centreIndex + 4 := cc ! (5 * centreIndex + 4)]\<rparr>)"

text \<open>Line 410 and line 436: the bodies of the two plain loops.\<close>

definition copy_snapshot :: "SLIC \<Rightarrow> real list \<Rightarrow> nat \<Rightarrow> real list" where
  "copy_snapshot st pcc centreIndex = pcc[centreIndex := clusterCentres st ! centreIndex]"

definition add_residual :: "SLIC \<Rightarrow> real \<Rightarrow> nat \<Rightarrow> real" where
  "add_residual st t centreIndex = t + residualError st ! centreIndex"

text \<open>Lines 406 to 439.\<close>

definition computeResidualError :: "SLIC \<Rightarrow> fault + SLIC" where
  "computeResidualError st =
     (if iterationIndex st = 0 then
        Inr (st\<lparr>previousClusterCentres :=
               foldl (copy_snapshot st) (previousClusterCentres st)
                 [0..<5 * clustersNumber st]\<rparr>)
      else
        (let st1 = foldl residual_centre st [0..<clustersNumber st];
             total = foldl (add_residual st1) 0 [0..<clustersNumber st1]
         in bindF (div_double total (real (clustersNumber st1)))
              (\<lambda>t. Inr (st1\<lparr>totalResidualError := t\<rparr>))))"

section \<open>Orphan recovery and the loop of createSuperpixels\<close>

text \<open>\<^verbatim>\<open>iterationNumber - 1\<close> on \<^verbatim>\<open>unsigned\<close>: \<open>0 - 1\<close> wraps to \<open>UINT_MAX\<close>.\<close>

definition unsigned_pred :: "nat \<Rightarrow> nat" where
  "unsigned_pred n = (if n = 0 then UINT_MAX else n - 1)"

text \<open>The condition of lines 443 to 448. \<^verbatim>\<open>errorThreshold\<close> is the parameter.\<close>

definition blob_condition ::
  "VideoElaborationMode \<Rightarrow> SLICElaborationMode \<Rightarrow> nat \<Rightarrow> real \<Rightarrow> SLIC \<Rightarrow> bool" where
  "blob_condition videoMode SLICMode iterationNumber thr st =
     (is_add_mode videoMode \<and>
      ((totalResidualError st < thr \<and> SLICMode = ERROR_THRESHOLD) \<or>
       (iterationIndex st \<ge> unsigned_pred iterationNumber \<and> SLICMode = FIXED_ITERATIONS)) \<and>
      255 \<in> set (pixelReachedByClusters st))"

text \<open>
  Lines 513 to 542: one contour's moments \<open>(m00, m10, m01)\<close>; a new centre is appended
  unless \<open>m00 = 0\<close>.
\<close>

definition spawn_centre :: "SLIC \<Rightarrow> real \<times> real \<times> real \<Rightarrow> SLIC" where
  "spawn_centre st mu =
     (case mu of (m00, m10, m01) \<Rightarrow>
        if m00 = 0 then st
        else st\<lparr>clusterCentres := clusterCentres st @ [0, 0, 0, m10 / m00, m01 / m00],
                previousClusterCentres :=
                  previousClusterCentres st @ [0, 0, 0, m10 / m00, m01 / m00],
                pixelsOfSameCluster := pixelsOfSameCluster st @ [0],
                residualError := residualError st @ [0],
                clustersNumber := clustersNumber st + 1\<rparr>)"

text \<open>
  Lines 450 to 552. The OpenCV calls \<^verbatim>\<open>dilate\<close>, \<^verbatim>\<open>rectangle\<close>, \<^verbatim>\<open>Canny\<close>,
  \<^verbatim>\<open>findContours\<close> and \<^verbatim>\<open>moments\<close> are library code: \<open>contourMoments\<close> stands for
  their composition, from the image and the reached mask to the moments of the
  contours found, in the order of \<^verbatim>\<open>contours\<close>.
\<close>

definition orphanRecovery ::
  "(Mat \<Rightarrow> 8 word list \<Rightarrow> (real \<times> real \<times> real) list) \<Rightarrow> Mat \<Rightarrow> SLIC \<Rightarrow> SLIC" where
  "orphanRecovery contourMoments img st =
     foldl spawn_centre st (contourMoments img (pixelReachedByClusters st))"

text \<open>The condition of the \<^verbatim>\<open>do ... while\<close>, lines 558 and 559.\<close>

definition loop_continues :: "SLICElaborationMode \<Rightarrow> nat \<Rightarrow> real \<Rightarrow> bool \<times> SLIC \<Rightarrow> bool" where
  "loop_continues SLICMode iterationNumber thr gs =
     (((totalResidualError (snd gs) > thr \<and> SLICMode = ERROR_THRESHOLD) \<or>
       (iterationIndex (snd gs) < iterationNumber \<and> SLICMode = FIXED_ITERATIONS)) \<and> fst gs)"

text \<open>
  Lines 314 to 439: the assignment step, the update step and the residual error.
  \<open>schedule n\<close> is the order in which the \<open>n\<close> bodies of the first
  \<^verbatim>\<open>tbb::parallel_for\<close> run.
\<close>

definition assign_update ::
  "(nat \<Rightarrow> nat list) \<Rightarrow> Mat \<Rightarrow> nat \<Rightarrow> VideoElaborationMode \<Rightarrow> SLIC \<Rightarrow> fault + SLIC" where
  "assign_update schedule img S videoMode st =
     bindF (updateCentres img (assignPixels (schedule (clustersNumber st)) img S videoMode st))
       computeResidualError"

text \<open>
  Lines 314 to 556: one pass of the loop body on the local \<^verbatim>\<open>go\<close> and the object.
\<close>

definition loop_body ::
  "(nat \<Rightarrow> nat list) \<Rightarrow> (Mat \<Rightarrow> 8 word list \<Rightarrow> (real \<times> real \<times> real) list) \<Rightarrow>
   Mat \<Rightarrow> nat \<Rightarrow> nat \<Rightarrow> real \<Rightarrow> SLICElaborationMode \<Rightarrow> VideoElaborationMode \<Rightarrow>
   bool \<times> SLIC \<Rightarrow> fault + bool \<times> SLIC" where
  "loop_body schedule contourMoments img S iterationNumber thr SLICMode videoMode gs =
     bindF (assign_update schedule img S videoMode (snd gs))
       (\<lambda>st2.
          (let (go, st3) =
                 (if blob_condition videoMode SLICMode iterationNumber thr st2
                  then (fst gs, orphanRecovery contourMoments img st2)
                  else (True, st2))
           in Inr (go, st3\<lparr>iterationIndex := iterationIndex st3 + 1\<rparr>)))"

text \<open>The \<^verbatim>\<open>do ... while\<close> loop; a loop that runs forever is \<open>None\<close>.\<close>

partial_function (option) do_while ::
  "(bool \<times> SLIC \<Rightarrow> fault + bool \<times> SLIC) \<Rightarrow> (bool \<times> SLIC \<Rightarrow> bool) \<Rightarrow> bool \<times> SLIC
     \<Rightarrow> (fault + SLIC) option" where
  "do_while body continues gs =
     (case body gs of
        Inl e \<Rightarrow> Some (Inl e)
      | Inr gs1 \<Rightarrow> if continues gs1 then do_while body continues gs1 else Some (Inr (snd gs1)))"

declare do_while.simps [code]

text \<open>\<^verbatim>\<open>createSuperpixels\<close>, with the schedule and the contour library as parameters.\<close>

definition createSuperpixels ::
  "(nat \<Rightarrow> nat list) \<Rightarrow> (Mat \<Rightarrow> 8 word list \<Rightarrow> (real \<times> real \<times> real) list) \<Rightarrow>
   Mat \<Rightarrow> nat \<Rightarrow> nat \<Rightarrow> nat \<Rightarrow> real \<Rightarrow> SLICElaborationMode \<Rightarrow> VideoElaborationMode \<Rightarrow>
   nat \<Rightarrow> (nat \<Rightarrow> real) \<Rightarrow> bool \<Rightarrow> SLIC \<Rightarrow> (fault + SLIC) option" where
  "createSuperpixels schedule contourMoments img S w iterationNumber thr SLICMode videoMode
       keyFramesRatio randomGen connectedFrames st =
     (case initializeSLICData img S w thr videoMode keyFramesRatio randomGen connectedFrames st of
        None \<Rightarrow> None
      | Some (Inl e) \<Rightarrow> Some (Inl e)
      | Some (Inr st1) \<Rightarrow>
          map_option
            (\<lambda>r. case r of Inl e \<Rightarrow> Inl e
                  | Inr st2 \<Rightarrow> Inr (st2\<lparr>framesNumber := framesNumber st2 + 1\<rparr>))
            (do_while
               (loop_body schedule contourMoments img S iterationNumber thr SLICMode videoMode)
               (loop_continues SLICMode iterationNumber thr)
               (False, st1\<lparr>iterationIndex := 0\<rparr>)))"

text \<open>The order of a serial run of \<^verbatim>\<open>tbb::parallel_for\<close>.\<close>

definition serial :: "nat \<Rightarrow> nat list" where
  "serial n = [0..<n]"

section \<open>enforceConnectivity\<close>

definition in_image :: "Mat \<Rightarrow> int \<Rightarrow> int \<Rightarrow> bool" where
  "in_image img tempX tempY =
     (tempX \<ge> 0 \<and> tempX < cols img \<and> tempY \<ge> 0 \<and> tempY < rows img)"

definition pixel_index :: "Mat \<Rightarrow> int \<Rightarrow> int \<Rightarrow> nat" where
  "pixel_index img x y = nat (y * cols img + x)"

text \<open>
  Lines 593 to 603: the inner loop over \<open>tempX\<close> of the search for an adjacent
  cluster. The \<^verbatim>\<open>break\<close> leaves this loop only; the loop over \<open>tempY\<close> goes on.
\<close>

fun adjacent_in_row :: "Mat \<Rightarrow> int list \<Rightarrow> int \<Rightarrow> int list \<Rightarrow> int \<Rightarrow> int" where
  "adjacent_in_row img newPixelCluster tempY [] adjacentCluster = adjacentCluster"
| "adjacent_in_row img newPixelCluster tempY (tempX # xs) adjacentCluster =
     (if in_image img tempX tempY \<and>
         newPixelCluster ! pixel_index img tempX tempY \<noteq> - 1
      then newPixelCluster ! pixel_index img tempX tempY
      else adjacent_in_row img newPixelCluster tempY xs adjacentCluster)"

definition adjacent_row :: "Mat \<Rightarrow> int list \<Rightarrow> Point \<Rightarrow> int \<Rightarrow> int \<Rightarrow> int" where
  "adjacent_row img newPixelCluster p adjacentCluster tempY =
     adjacent_in_row img newPixelCluster tempY [fst p - 1 .. fst p + 1] adjacentCluster"

definition find_adjacent :: "Mat \<Rightarrow> int list \<Rightarrow> Point \<Rightarrow> int \<Rightarrow> int" where
  "find_adjacent img newPixelCluster p adjacentCluster =
     foldl (adjacent_row img newPixelCluster p) adjacentCluster [snd p - 1 .. snd p + 1]"

text \<open>
  Lines 613 to 621: the test of one neighbour while a segment grows. The state is
  \<^verbatim>\<open>(pixelSegment, newPixelCluster)\<close>; \<^verbatim>\<open>count\<close> is always the size of
  \<^verbatim>\<open>pixelSegment\<close>. \<open>label\<close> is \<^verbatim>\<open>pixelCluster[y * image.cols + x]\<close> of the pixel
  the segment started from.
\<close>

definition grow_pixel ::
  "Mat \<Rightarrow> int list \<Rightarrow> int \<Rightarrow> int \<Rightarrow> Point list \<times> int list \<Rightarrow> int \<Rightarrow> Point list \<times> int list" where
  "grow_pixel img pc label tempY sn tempX =
     (if in_image img tempX tempY \<and>
         snd sn ! pixel_index img tempX tempY = - 1 \<and>
         pc ! pixel_index img tempX tempY = label
      then (fst sn @ [(tempX, tempY)], (snd sn)[pixel_index img tempX tempY := label])
      else sn)"

definition grow_row ::
  "Mat \<Rightarrow> int list \<Rightarrow> int \<Rightarrow> Point \<Rightarrow> Point list \<times> int list \<Rightarrow> int \<Rightarrow> Point list \<times> int list" where
  "grow_row img pc label p sn tempY =
     foldl (grow_pixel img pc label tempY) sn [fst p - 1 .. fst p + 1]"

definition grow_around ::
  "Mat \<Rightarrow> int list \<Rightarrow> int \<Rightarrow> Point \<Rightarrow> Point list \<times> int list \<Rightarrow> Point list \<times> int list" where
  "grow_around img pc label p sn =
     foldl (grow_row img pc label p) sn [snd p - 1 .. snd p + 1]"

text \<open>
  Lines 607 to 622: \<^verbatim>\<open>for (unsigned c = 0; c < count; ++c)\<close>, where the body may
  increase \<^verbatim>\<open>count\<close>. A loop that never ends is \<open>None\<close>.
\<close>

partial_function (option) grow ::
  "Mat \<Rightarrow> int list \<Rightarrow> int \<Rightarrow> nat \<Rightarrow> Point list \<times> int list \<Rightarrow> (Point list \<times> int list) option" where
  "grow img pc label c sn =
     (if c < length (fst sn)
      then grow img pc label (c + 1) (grow_around img pc label (fst sn ! c) sn)
      else Some sn)"

declare grow.simps [code]

text \<open>Lines 627 and 628.\<close>

definition relabel_pixel :: "Mat \<Rightarrow> int \<Rightarrow> int list \<Rightarrow> Point \<Rightarrow> int list" where
  "relabel_pixel img adjacentCluster newPixelCluster p =
     newPixelCluster[pixel_index img (fst p) (snd p) := adjacentCluster]"

definition relabel :: "Mat \<Rightarrow> int \<Rightarrow> Point list \<Rightarrow> int list \<Rightarrow> int list" where
  "relabel img adjacentCluster pixelSegment newPixelCluster =
     foldl (relabel_pixel img adjacentCluster) newPixelCluster pixelSegment"

text \<open>
  Lines 584 to 629: the body of the raster loops at the pixel \<open>(x, y)\<close>, on the state
  \<^verbatim>\<open>(adjacentCluster, newPixelCluster)\<close>. Lines 631 to 683 are \<open>store_labels\<close> below.
\<close>

definition label_segment ::
  "Mat \<Rightarrow> int list \<Rightarrow> nat \<Rightarrow> int \<Rightarrow> int \<Rightarrow> int \<times> int list \<Rightarrow> (int \<times> int list) option" where
  "label_segment img pc clustersAverageSize y x an =
     (if snd an ! pixel_index img x y = - 1 then
        (let label = pc ! pixel_index img x y;
             new1 = (snd an)[pixel_index img x y := label];
             adjacentCluster = find_adjacent img new1 (x, y) (fst an)
         in Option.bind (grow img pc label 0 ([(x, y)], new1))
              (\<lambda>sn. Some (adjacentCluster,
                 if length (fst sn) \<le> clustersAverageSize div 4
                 then relabel img adjacentCluster (fst sn) (snd sn)
                 else snd sn)))
      else Some an)"

text \<open>A counted loop whose body may not return.\<close>

fun for_opt :: "'a list \<Rightarrow> ('a \<Rightarrow> 's \<Rightarrow> 's option) \<Rightarrow> 's \<Rightarrow> 's option" where
  "for_opt [] f s = Some s"
| "for_opt (a # as) f s = Option.bind (f a s) (for_opt as f)"

text \<open>Lines 572 to 629: the relabelling pass; the result is \<^verbatim>\<open>newPixelCluster\<close>.\<close>

definition label_row ::
  "Mat \<Rightarrow> int list \<Rightarrow> nat \<Rightarrow> int \<Rightarrow> int \<times> int list \<Rightarrow> (int \<times> int list) option" where
  "label_row img pc clustersAverageSize y =
     for_opt [0 .. cols img - 1] (label_segment img pc clustersAverageSize y)"

definition label_pass :: "Mat \<Rightarrow> nat \<Rightarrow> SLIC \<Rightarrow> int list option" where
  "label_pass img clustersAverageSize st =
     map_option snd
       (for_opt [0 .. rows img - 1] (label_row img (pixelCluster st) clustersAverageSize)
          (0, replicate (pixelsNumber st) (- 1)))"

text \<open>
  Line 570: \<^verbatim>\<open>static_cast<unsigned>(pixelsNumber / clustersNumber + 0.5)\<close>. The
  quotient is a division of \<^verbatim>\<open>unsigned\<close>; the sum is a double and is truncated.
\<close>

definition clustersAverageSize :: "SLIC \<Rightarrow> nat" where
  "clustersAverageSize st =
     nat (static_cast_int (real (pixelsNumber st div clustersNumber st) + 0.5))"

text \<open>Lines 637 to 683: the centres are recomputed from the new labels.\<close>

definition reset_centre :: "SLIC \<Rightarrow> nat \<Rightarrow> SLIC" where
  "reset_centre st centreIndex =
     st\<lparr>clusterCentres := (clusterCentres st)
            [5 * centreIndex := 0, 5 * centreIndex + 1 := 0, 5 * centreIndex + 2 := 0,
             5 * centreIndex + 3 := 0, 5 * centreIndex + 4 := 0],
        pixelsOfSameCluster := (pixelsOfSameCluster st)[centreIndex := 0]\<rparr>"

definition recomputeCentres :: "Mat \<Rightarrow> SLIC \<Rightarrow> fault + SLIC" where
  "recomputeCentres img st =
     normalizeCentres (accumulate img (foldl reset_centre st [0..<clustersNumber st]))"

text \<open>
  \<^verbatim>\<open>enforceConnectivity\<close>. With \<^verbatim>\<open>clustersNumber = 0\<close> line 570 divides an
  \<^verbatim>\<open>unsigned\<close> by zero.
\<close>

definition copy_label :: "int list \<Rightarrow> int list \<Rightarrow> nat \<Rightarrow> int list" where
  "copy_label newPixelCluster pc n = pc[n := newPixelCluster ! n]"

definition store_labels :: "Mat \<Rightarrow> SLIC \<Rightarrow> int list \<Rightarrow> fault + SLIC" where
  "store_labels img st newPixelCluster =
     recomputeCentres img
       (st\<lparr>pixelCluster :=
             foldl (copy_label newPixelCluster) (pixelCluster st) [0..<pixelsNumber st]\<rparr>)"

definition enforceConnectivity :: "Mat \<Rightarrow> SLIC \<Rightarrow> (fault + SLIC) option" where
  "enforceConnectivity img st =
     (if clustersNumber st = 0 then Some (Inl DivisionByZero)
      else map_option (store_labels img st) (label_pass img (clustersAverageSize st) st))"

section \<open>Predicates and example states used in the verification\<close>

text \<open>
  \<open>normalized_from cs st st'\<close>: what normalizing the centres \<open>cs\<close> may change. The
  counts, the labels and the centres outside \<open>cs\<close> stay, and so does every centre of
  \<open>cs\<close> whose count is zero.
\<close>

definition normalized_from :: "nat list \<Rightarrow> SLIC \<Rightarrow> SLIC \<Rightarrow> bool" where
  "normalized_from cs st st' \<longleftrightarrow>
     pixelsOfSameCluster st' = pixelsOfSameCluster st \<and>
     clustersNumber st' = clustersNumber st \<and>
     pixelCluster st' = pixelCluster st \<and>
     length (clusterCentres st') = length (clusterCentres st) \<and>
     (\<forall>c k. k < 5 \<and> (c \<notin> set cs \<or> pixelsOfSameCluster st ! c = 0) \<longrightarrow>
        clusterCentres st' ! (5 * c + k) = clusterCentres st ! (5 * c + k))"

text \<open>A state before normalization: centre 0 has two pixels, centre 1 has none.\<close>

definition empty_centre_SLIC :: SLIC where
  "empty_centre_SLIC = \<lparr>
     iterationIndex = 0, pixelsNumber = 2, clustersNumber = 2, samplingStep = 1,
     spatialDistanceWeight = 1, distanceFactor = 1, totalResidualError = DBL_MAX,
     errorThreshold = 0, framesNumber = 0,
     pixelCluster = [0, 0], distanceFromClusterCentre = [0, 1],
     pixelReachedByClusters = [],
     clusterCentres = [20, 40, 60, 1, 0, 0, 0, 0, 0, 0],
     previousClusterCentres = [10, 20, 30, 0, 0, 7, 7, 7, 1, 0],
     pixelsOfSameCluster = [2, 0], residualError = [0, 0] \<rparr>"

text \<open>
  A state left by a previous frame, with two centres, and the samples of a generator.
\<close>

definition two_centre_SLIC :: SLIC where
  "two_centre_SLIC = \<lparr>
     iterationIndex = 3, pixelsNumber = 4, clustersNumber = 2, samplingStep = 1,
     spatialDistanceWeight = 1, distanceFactor = 1, totalResidualError = 0,
     errorThreshold = 0, framesNumber = 1,
     pixelCluster = [0, 0, 1, 1], distanceFromClusterCentre = [1 / 4, 1 / 4, 1 / 4, 1 / 4],
     pixelReachedByClusters = [],
     clusterCentres = [10, 20, 30, 1 / 2, 0, 40, 50, 60, 5 / 2, 0],
     previousClusterCentres = [10, 20, 30, 1 / 2, 0, 40, 50, 60, 5 / 2, 0],
     pixelsOfSameCluster = [2, 2], residualError = [0, 0] \<rparr>"

definition sample_noise :: "nat \<Rightarrow> real" where
  "sample_noise k = (if even k then 1 / 4 else - 1 / 2)"

definition strip_image :: Mat where
  "strip_image = \<lparr>rows = 1, cols = 4, at_Vec3b = (\<lambda>y x. (0, 0, 0))\<rparr>"

text \<open>
  A uniform 3x5 image and an assignment of its 15 pixels to 4 clusters in which the
  pixel \<open>(1, 1)\<close> alone carries the label 1.
\<close>

definition gray_3x5 :: Mat where
  "gray_3x5 = \<lparr>rows = 3, cols = 5, at_Vec3b = (\<lambda>y x. (128, 128, 128))\<rparr>"

definition stray_pixel_SLIC :: SLIC where
  "stray_pixel_SLIC = \<lparr>
     iterationIndex = 1, pixelsNumber = 15, clustersNumber = 4, samplingStep = 2,
     spatialDistanceWeight = 1, distanceFactor = 1 / 4, totalResidualError = 0,
     errorThreshold = 0, framesNumber = 1,
     pixelCluster = [0, 0, 0, 2, 2,
                     0, 1, 0, 2, 3,
                     0, 0, 0, 3, 3],
     distanceFromClusterCentre = replicate 15 0,
     pixelReachedByClusters = [],
     clusterCentres = replicate 20 0, previousClusterCentres = replicate 20 0,
     pixelsOfSameCluster = [8, 1, 3, 3], residualError = [0, 0, 0, 0] \<rparr>"

text \<open>
  A uniform 3x4 image and an assignment of its 12 pixels to 3 clusters; the average
  cluster size is 4 and its quarter is 1.
\<close>

definition gray_3x4 :: Mat where
  "gray_3x4 = \<lparr>rows = 3, cols = 4, at_Vec3b = (\<lambda>y x. (128, 128, 128))\<rparr>"

definition fragments_SLIC :: SLIC where
  "fragments_SLIC = \<lparr>
     iterationIndex = 1, pixelsNumber = 12, clustersNumber = 3, samplingStep = 2,
     spatialDistanceWeight = 1, distanceFactor = 1 / 4, totalResidualError = 0,
     errorThreshold = 0, framesNumber = 1,
     pixelCluster = [0, 0, 0, 0,
                     1, 2, 2, 0,
                     0, 0, 1, 0],
     distanceFromClusterCentre = replicate 12 0,
     pixelReachedByClusters = [],
     clusterCentres = replicate 15 0, previousClusterCentres = replicate 15 0,
     pixelsOfSameCluster = [8, 2, 2], residualError = [0, 0, 0] \<rparr>"

text \<open>Two runs of \<^verbatim>\<open>enforceConnectivity\<close> in succession.\<close>

definition enforceConnectivity_twice :: "Mat \<Rightarrow> SLIC \<Rightarrow> (fault + SLIC) option" where
  "enforceConnectivity_twice img st =
     (case enforceConnectivity img st of
        None \<Rightarrow> None
      | Some (Inl e) \<Rightarrow> Some (Inl e)
      | Some (Inr st1) \<Rightarrow> enforceConnectivity img st1)"

text \<open>
  The grid of the spec's Seeder, for comparison with the seeding loops: the coordinates
  \<open>x, x + S, x + 2 S, ...\<close> below \<open>bound\<close>, and the grid points \<open>(x, y)\<close> of an image in
  the order of the loops (rows outermost).
\<close>

function grid_from :: "nat \<Rightarrow> int \<Rightarrow> int \<Rightarrow> int list" where
  "grid_from S x bound = (if 0 < S \<and> x < bound then x # grid_from S (x + int S) bound else [])"
  by pat_completeness auto
termination
  by (relation "measure (\<lambda>(S, x, bound). nat (bound - x))") auto

declare grid_from.simps [simp del]

definition grid_line :: "int list \<Rightarrow> int \<Rightarrow> Point list" where
  "grid_line xs y = map (\<lambda>x. (x, y)) xs"

definition grid_points :: "nat \<Rightarrow> Mat \<Rightarrow> Point list" where
  "grid_points S img =
     concat (map (grid_line (grid_from S (int S) (cols img))) (grid_from S (int S) (rows img)))"

text \<open>The five values \<^verbatim>\<open>[L, A, B, x, y]\<close> pushed for the grid point \<open>p\<close>.\<close>

definition seed_centre :: "Mat \<Rightarrow> Point \<Rightarrow> real list" where
  "seed_centre img p =
     (let q = findLowestGradient img p; c = at_Vec3b img (snd q) (fst q)
      in [real_of_int (val0 c), real_of_int (val1 c), real_of_int (val2 c),
          real_of_int (fst q), real_of_int (snd q)])"

definition seed_at :: "Mat \<Rightarrow> int \<Rightarrow> SLIC \<Rightarrow> int \<Rightarrow> SLIC" where
  "seed_at img y st x = push_seed img (x, y) st"

definition seed_line :: "Mat \<Rightarrow> nat \<Rightarrow> SLIC \<Rightarrow> int \<Rightarrow> SLIC" where
  "seed_line img S st y = foldl (seed_at img y) st (grid_from S (int S) (cols img))"

definition seed_point :: "Mat \<Rightarrow> SLIC \<Rightarrow> Point \<Rightarrow> SLIC" where
  "seed_point img st p = push_seed img p st"

text \<open>
  The search of \<^verbatim>\<open>findLowestGradient\<close> as the spec words it. \<open>search_area\<close>: the pixels
  of the 3x3 neighbourhood of \<open>p\<close> that are not on the border of the image.
  \<open>gradient_magnitude\<close>: the squared horizontal difference plus the squared vertical
  difference of the first channel around a pixel, an integer that is not reduced to any
  machine width. \<open>lowest_in_window\<close> says that \<open>q\<close> is a pixel of the search area with the
  lowest gradient magnitude, or is \<open>p\<close> itself when the area is empty.
\<close>

definition search_area :: "Mat \<Rightarrow> Point \<Rightarrow> Point set" where
  "search_area img p =
     {(x, y). \<bar>x - fst p\<bar> \<le> 1 \<and> \<bar>y - snd p\<bar> \<le> 1 \<and>
              1 \<le> x \<and> x \<le> cols img - 2 \<and> 1 \<le> y \<and> y \<le> rows img - 2}"

definition first_channel :: "Mat \<Rightarrow> int \<Rightarrow> int \<Rightarrow> int" where
  "first_channel img x y = uint (fst (at_Vec3b img y x))"

definition gradient_magnitude :: "Mat \<Rightarrow> Point \<Rightarrow> int" where
  "gradient_magnitude img q =
     (first_channel img (fst q + 1) (snd q) - first_channel img (fst q - 1) (snd q))\<^sup>2 +
     (first_channel img (fst q) (snd q + 1) - first_channel img (fst q) (snd q - 1))\<^sup>2"

definition lowest_of :: "Mat \<Rightarrow> Point \<Rightarrow> Point set \<Rightarrow> nat \<times> Point \<Rightarrow> bool" where
  "lowest_of img p seen acc =
     (if seen = {} then acc = (UINT_MAX, p)
      else snd acc \<in> seen \<and> int (fst acc) = gradient_magnitude img (snd acc) \<and>
           (\<forall>r \<in> seen. int (fst acc) \<le> gradient_magnitude img r))"

definition lowest_in_window :: "Mat \<Rightarrow> Point \<Rightarrow> Point \<Rightarrow> bool" where
  "lowest_in_window img p q =
     (if search_area img p = {} then q = p
      else q \<in> search_area img p \<and>
           (\<forall>r \<in> search_area img p. gradient_magnitude img q \<le> gradient_magnitude img r))"

text \<open>A uniform 100x100 image and an object that has not processed a frame yet.\<close>

definition gray_100x100 :: Mat where
  "gray_100x100 = \<lparr>rows = 100, cols = 100, at_Vec3b = (\<lambda>y x. (128, 128, 128))\<rparr>"

definition fresh_SLIC :: SLIC where
  "fresh_SLIC = \<lparr>
     iterationIndex = 0, pixelsNumber = 0, clustersNumber = 0, samplingStep = 0,
     spatialDistanceWeight = 0, distanceFactor = 0, totalResidualError = 0,
     errorThreshold = 0, framesNumber = 0,
     pixelCluster = [], distanceFromClusterCentre = [], pixelReachedByClusters = [],
     clusterCentres = [], previousClusterCentres = [],
     pixelsOfSameCluster = [], residualError = [] \<rparr>"

definition no_noise :: "nat \<Rightarrow> real" where
  "no_noise k = 0"

text \<open>
  The relation between the three members that line 156 establishes:
  \<^verbatim>\<open>distanceFactor\<close> is \<open>spatialDistanceWeight\<^sup>2 / samplingStep\<^sup>2\<close>.
\<close>

definition factor_ok :: "SLIC \<Rightarrow> bool" where
  "factor_ok st \<longleftrightarrow>
     distanceFactor st = (real (spatialDistanceWeight st))\<^sup>2 / (real (samplingStep st))\<^sup>2"

definition settings :: "SLIC \<Rightarrow> real \<times> nat \<times> nat \<times> nat" where
  "settings st = (distanceFactor st, spatialDistanceWeight st, samplingStep st, pixelsNumber st)"

text \<open>
  A uniform 3x3 image; with step 2 it has the single grid point \<open>(2, 2)\<close>, which is
  relocated to \<open>(1, 1)\<close>. \<open>seeded_3x3\<close> is the object after \<^verbatim>\<open>initializeSLICData\<close>.
  \<open>no_contours\<close> is a contour library that finds nothing.
\<close>

definition gray_3x3 :: Mat where
  "gray_3x3 = \<lparr>rows = 3, cols = 3, at_Vec3b = (\<lambda>y x. (128, 128, 128))\<rparr>"

definition seeded_3x3 :: SLIC where
  "seeded_3x3 = \<lparr>
     iterationIndex = 0, pixelsNumber = 9, clustersNumber = 1, samplingStep = 2,
     spatialDistanceWeight = 1, distanceFactor = 1 / 4, totalResidualError = DBL_MAX,
     errorThreshold = 0, framesNumber = 0,
     pixelCluster = replicate 9 (- 1), distanceFromClusterCentre = replicate 9 DBL_MAX,
     pixelReachedByClusters = [],
     clusterCentres = [128, 128, 128, 1, 1], previousClusterCentres = [128, 128, 128, 1, 1],
     pixelsOfSameCluster = [0], residualError = [0] \<rparr>"

definition no_contours :: "Mat \<Rightarrow> 8 word list \<Rightarrow> (real \<times> real \<times> real) list" where
  "no_contours img reached = []"

text \<open>
  An 8x8 frame processed in \<^verbatim>\<open>ADD_SUPERPIXELS\<close> mode with the centres of the previous
  frame. \<open>corner_SLIC\<close> is the object that frame left: one centre at \<open>(1, 1)\<close> with step
  1, whose window is the 3x3 block of the pixels with \<open>x, y \<le> 2\<close>; the block belongs to
  the centre, its centroid is the centre, and the other 55 pixels are unassigned.
\<close>

definition gray_8x8 :: Mat where
  "gray_8x8 = \<lparr>rows = 8, cols = 8, at_Vec3b = (\<lambda>y x. (128, 128, 128))\<rparr>"

definition corner_SLIC :: SLIC where
  "corner_SLIC = \<lparr>
     iterationIndex = 1, pixelsNumber = 64, clustersNumber = 1, samplingStep = 1,
     spatialDistanceWeight = 1, distanceFactor = 1, totalResidualError = 0,
     errorThreshold = 0, framesNumber = 1,
     pixelCluster =
       [0, 0, 0] @ replicate 5 (- 1) @ [0, 0, 0] @ replicate 5 (- 1) @ [0, 0, 0] @
       replicate 45 (- 1),
     distanceFromClusterCentre =
       [2, 1, 2] @ replicate 5 DBL_MAX @ [1, 0, 1] @ replicate 5 DBL_MAX @ [2, 1, 2] @
       replicate 45 DBL_MAX,
     pixelReachedByClusters =
       [0, 0, 0] @ replicate 5 255 @ [0, 0, 0] @ replicate 5 255 @ [0, 0, 0] @
       replicate 45 255,
     clusterCentres = [128, 128, 128, 1, 1], previousClusterCentres = [128, 128, 128, 1, 1],
     pixelsOfSameCluster = [9], residualError = [0] \<rparr>"

text \<open>
  The contour library on such a frame. \<^verbatim>\<open>dilate\<close> with the 10x10 element turns the whole
  8x8 mask white as soon as one pixel is not reached, the frame of thickness 2 drawn by
  \<^verbatim>\<open>rectangle\<close> leaves the square of the pixels 2 to 5 in both directions, and the
  contour around that square is reported: area 9, centroid \<open>(7/2, 7/2)\<close>, that is
  \<open>m00 = 9\<close> and \<open>m10 = m01 = 63/2\<close>. With every pixel reached there is no contour.
\<close>

definition square_contour :: "Mat \<Rightarrow> 8 word list \<Rightarrow> (real \<times> real \<times> real) list" where
  "square_contour img reached = (if 255 \<in> set reached then [(9, 63 / 2, 63 / 2)] else [])"

text \<open>
  \<open>corner_entry\<close> is the object with which the loop of \<^verbatim>\<open>createSuperpixels\<close> is entered
  on that frame, \<open>corner_updated\<close> the object after the assignment step, the update step
  and the residual error of its first pass.
\<close>

definition corner_entry :: SLIC where
  "corner_entry = corner_SLIC\<lparr>
     totalResidualError := DBL_MAX, pixelReachedByClusters := replicate 64 255,
     iterationIndex := 0\<rparr>"

definition corner_updated :: SLIC where
  "corner_updated = corner_entry\<lparr>
     pixelReachedByClusters :=
       [0, 0, 0] @ replicate 5 255 @ [0, 0, 0] @ replicate 5 255 @ [0, 0, 0] @
       replicate 45 255\<rparr>"

text \<open>Another order of the bodies of \<^verbatim>\<open>tbb::parallel_for\<close>: highest centre index first.\<close>

definition reversed :: "nat \<Rightarrow> nat list" where
  "reversed n = rev [0..<n]"

text \<open>
  The invariant of the Assignment Map: every entry is the sentinel \<open>-1\<close> or an index
  below the cluster count. \<open>schedule_ok\<close>: a schedule only names centres that exist.
  \<open>frame_ok\<close>: the vectors of the object have the size of the image.
\<close>

definition valid_label :: "nat \<Rightarrow> int \<Rightarrow> bool" where
  "valid_label n v \<longleftrightarrow> v = - 1 \<or> (0 \<le> v \<and> v < int n)"

definition labels_valid :: "SLIC \<Rightarrow> bool" where
  "labels_valid st \<longleftrightarrow> (\<forall>v \<in> set (pixelCluster st). valid_label (clustersNumber st) v)"

definition schedule_ok :: "(nat \<Rightarrow> nat list) \<Rightarrow> bool" where
  "schedule_ok schedule \<longleftrightarrow> (\<forall>n. set (schedule n) \<subseteq> {..<n})"

definition frame_ok :: "Mat \<Rightarrow> SLIC \<Rightarrow> bool" where
  "frame_ok img st \<longleftrightarrow>
     0 \<le> rows img \<and> 0 \<le> cols img \<and> pixelsNumber st = nat (rows img * cols img) \<and>
     length (pixelCluster st) = pixelsNumber st"

definition labelling :: "SLIC \<Rightarrow> int list \<times> nat" where
  "labelling st = (pixelCluster st, clustersNumber st)"

text \<open>
  The invariant of the relabelling pass on \<^verbatim>\<open>(adjacentCluster, newPixelCluster)\<close> for
  \<open>n\<close> clusters and \<open>m\<close> pixels.
\<close>

definition new_labels_ok :: "nat \<Rightarrow> nat \<Rightarrow> int list \<Rightarrow> bool" where
  "new_labels_ok n m new \<longleftrightarrow> length new = m \<and> (\<forall>v \<in> set new. valid_label n v)"

definition pass_ok :: "nat \<Rightarrow> nat \<Rightarrow> int \<times> int list \<Rightarrow> bool" where
  "pass_ok n m an \<longleftrightarrow> 0 \<le> fst an \<and> fst an < int n \<and> new_labels_ok n m (snd an)"

text \<open>The object after one pass on the 3x3 image: every pixel belongs to the one centre.\<close>

definition assigned_3x3 :: SLIC where
  "assigned_3x3 = seeded_3x3\<lparr>
     pixelCluster := replicate 9 0,
     distanceFromClusterCentre := [1 / 2, 1 / 4, 1 / 2, 1 / 4, 0, 1 / 4, 1 / 2, 1 / 4, 1 / 2],
     pixelsOfSameCluster := [9]\<rparr>"

section \<open>Verification\<close>

subsection \<open>The copy constructor\<close>

lemma bindF_Inl [simp]: "bindF (Inl e) f = Inl e"
  by (simp add: bindF_def)

lemma bindF_Inr [simp]: "bindF (Inr v) f = f v"
  by (simp add: bindF_def)

lemma copy_pixel_unresized:
  assumes "pixelReachedByClusters this = []"
  shows "copy_pixel otherSLIC n this = Inl OutOfBounds"
  using assms unfolding copy_pixel_def
  by (auto simp: vec_get_def vec_set_def bindF_def split: sum.splits)

lemma SLIC_copy_faults:
  assumes "0 < pixelsNumber otherSLIC"
  shows "SLIC_copy otherSLIC = Inl OutOfBounds"
proof -
  from assms have "[0..<pixelsNumber otherSLIC] = 0 # [1..<pixelsNumber otherSLIC]"
    by (simp add: upt_conv_Cons)
  then show ?thesis
    by (simp add: SLIC_copy_def Let_def copy_pixel_unresized)
qed

text \<open>
  C10. The claim is that for every source object with \<open>pixelsNumber > 0\<close> the copy
  constructor only makes in-bounds accesses, in particular the write to
  \<^verbatim>\<open>this->pixelReachedByClusters[n]\<close>. The code resizes six vectors of the new object
  but not \<^verbatim>\<open>pixelReachedByClusters\<close>, which is still empty when line 60 writes its
  element 0: on the well-formed one-pixel object the checked model ends in the fault
  \<open>OutOfBounds\<close>.
\<close>

theorem SLIC_copy_out_of_bounds:
  "SLIC_copy one_pixel_SLIC = Inl OutOfBounds"
  by (simp add: SLIC_copy_def one_pixel_SLIC_def copy_pixel_def vec_get_def vec_set_def
      resize_def upt_conv_Cons)

subsection \<open>Normalization of the centres\<close>

lemma div_double_Inr: "b \<noteq> 0 \<Longrightarrow> div_double a b = Inr (a / b)"
  by (simp add: div_double_def)

lemma normalize_centre_cases:
  "normalize_centre c st =
     Inr (if pixelsOfSameCluster st ! c \<noteq> 0
          then st\<lparr>clusterCentres := (clusterCentres st)
                 [5 * c := clusterCentres st ! (5 * c) / real (pixelsOfSameCluster st ! c),
                  5 * c + 1 := clusterCentres st ! (5 * c + 1) / real (pixelsOfSameCluster st ! c),
                  5 * c + 2 := clusterCentres st ! (5 * c + 2) / real (pixelsOfSameCluster st ! c),
                  5 * c + 3 := clusterCentres st ! (5 * c + 3) / real (pixelsOfSameCluster st ! c),
                  5 * c + 4 := clusterCentres st ! (5 * c + 4) / real (pixelsOfSameCluster st ! c)]\<rparr>
          else st)"
  by (simp add: normalize_centre_def Let_def div_double_Inr)

lemma normalize_centre_from:
  "\<exists>st'. normalize_centre c st = Inr st' \<and> normalized_from [c] st st'"
  by (simp add: normalize_centre_cases normalized_from_def)

lemma normalized_from_trans:
  assumes "normalized_from [c] st st1" and "normalized_from cs st1 st'"
  shows "normalized_from (c # cs) st st'"
proof -
  have "clusterCentres st' ! (5 * d + k) = clusterCentres st ! (5 * d + k)"
    if "k < 5" and "d \<notin> set (c # cs) \<or> pixelsOfSameCluster st ! d = 0" for d k
  proof -
    have "clusterCentres st' ! (5 * d + k) = clusterCentres st1 ! (5 * d + k)"
      using assms that unfolding normalized_from_def by auto
    also have "\<dots> = clusterCentres st ! (5 * d + k)"
      using assms(1) that unfolding normalized_from_def by auto
    finally show ?thesis .
  qed
  then show ?thesis
    using assms unfolding normalized_from_def by simp
qed

lemma for_each_normalize:
  "\<exists>st'. for_each cs normalize_centre st = Inr st' \<and> normalized_from cs st st'"
proof (induction cs arbitrary: st)
  case Nil
  show ?case by (simp add: normalized_from_def)
next
  case (Cons c cs)
  obtain st1 where 1: "normalize_centre c st = Inr st1" "normalized_from [c] st st1"
    using normalize_centre_from by blast
  obtain st' where 2: "for_each cs normalize_centre st1 = Inr st'" "normalized_from cs st1 st'"
    using Cons.IH by blast
  show ?case
    using 1 2 normalized_from_trans by auto
qed

lemma normalizeCentres_from:
  "\<exists>st'. normalizeCentres st = Inr st' \<and> normalized_from [0..<clustersNumber st] st st'"
  unfolding normalizeCentres_def by (rule for_each_normalize)

text \<open>
  C3. In the normalization pass a centre whose pixel count is zero keeps its five
  accumulated values, and no division by zero is performed: \<open>div_double\<close> is the only
  step of \<open>normalizeCentres\<close> that can fault, and the pass never faults, neither in
  the loop of \<^verbatim>\<open>createSuperpixels\<close> (\<open>updateCentres\<close>) nor at the end of
  \<^verbatim>\<open>enforceConnectivity\<close> (\<open>recomputeCentres\<close>).
\<close>

theorem normalization_skips_empty_centres:
  "(\<exists>st'. normalizeCentres st = Inr st' \<and>
      (\<forall>c k. k < 5 \<and> pixelsOfSameCluster st ! c = 0 \<longrightarrow>
         clusterCentres st' ! (5 * c + k) = clusterCentres st ! (5 * c + k))) \<and>
   (\<exists>st'. updateCentres img st = Inr st') \<and>
   (\<exists>st'. recomputeCentres img st = Inr st')"
proof (intro conjI)
  obtain st' where "normalizeCentres st = Inr st'"
    "normalized_from [0..<clustersNumber st] st st'"
    using normalizeCentres_from by blast
  then show "\<exists>st'. normalizeCentres st = Inr st' \<and>
      (\<forall>c k. k < 5 \<and> pixelsOfSameCluster st ! c = 0 \<longrightarrow>
         clusterCentres st' ! (5 * c + k) = clusterCentres st ! (5 * c + k))"
    unfolding normalized_from_def by blast
  show "\<exists>st'. updateCentres img st = Inr st'"
    unfolding updateCentres_def using normalizeCentres_from by blast
  show "\<exists>st'. recomputeCentres img st = Inr st'"
    unfolding recomputeCentres_def using normalizeCentres_from by blast
qed

theorem normalization_skips_empty_centres_witness:
  "map_sum id clusterCentres (normalizeCentres empty_centre_SLIC)
     = Inr [10, 20, 30, 1 / 2, 0, 0, 0, 0, 0, 0] \<and>
   pixelsOfSameCluster empty_centre_SLIC ! 1 = 0"
  using normalization_skips_empty_centres [of empty_centre_SLIC]
  by (simp add: normalizeCentres_def normalize_centre_cases empty_centre_SLIC_def upt_conv_Cons)

subsection \<open>Gaussian noise on reused centres\<close>

lemma jitter_centre_length [simp]:
  "length (jitter_centre randomGen cc n) = length cc"
  by (simp add: jitter_centre_def Let_def)

lemma jitter_centre_other:
  "i \<noteq> 5 * n + 3 \<Longrightarrow> i \<noteq> 5 * n + 4 \<Longrightarrow> jitter_centre randomGen cc n ! i = cc ! i"
  by (simp add: jitter_centre_def Let_def)

lemma jitter_centre_position:
  assumes "5 * n + 4 < length cc"
  shows "jitter_centre randomGen cc n ! (5 * n + 3) = cc ! (5 * n + 3) + randomGen (2 * n)"
    and "jitter_centre randomGen cc n ! (5 * n + 4) = cc ! (5 * n + 4) + randomGen (2 * n + 1)"
  using assms by (simp_all add: jitter_centre_def Let_def)

lemma jitter_all:
  "length (foldl (jitter_centre randomGen) cc [0..<m]) = length cc \<and>
   (\<forall>i. i mod 5 < 3 \<or> 5 * m \<le> i \<longrightarrow>
      foldl (jitter_centre randomGen) cc [0..<m] ! i = cc ! i) \<and>
   (\<forall>n<m. 5 * n + 4 < length cc \<longrightarrow>
      foldl (jitter_centre randomGen) cc [0..<m] ! (5 * n + 3) = cc ! (5 * n + 3) + randomGen (2 * n) \<and>
      foldl (jitter_centre randomGen) cc [0..<m] ! (5 * n + 4) = cc ! (5 * n + 4) + randomGen (2 * n + 1))"
proof (induction m)
  case 0
  show ?case by simp
next
  case (Suc m)
  let ?pre = "foldl (jitter_centre randomGen) cc [0..<m]"
  have step: "foldl (jitter_centre randomGen) cc [0..<Suc m] = jitter_centre randomGen ?pre m"
    by simp
  have len: "length ?pre = length cc" using Suc.IH by blast
  have keep: "?pre ! i = cc ! i" if "i mod 5 < 3 \<or> 5 * m \<le> i" for i
    using Suc.IH that by blast
  have untouched: "jitter_centre randomGen ?pre m ! i = cc ! i"
    if "i mod 5 < 3 \<or> 5 * Suc m \<le> i" for i
  proof -
    from that have "i \<noteq> 5 * m + 3" "i \<noteq> 5 * m + 4" by presburger+
    then have "jitter_centre randomGen ?pre m ! i = ?pre ! i"
      by (rule jitter_centre_other)
    moreover from that have "i mod 5 < 3 \<or> 5 * m \<le> i" by presburger
    ultimately show ?thesis using keep by simp
  qed
  have moved:
    "jitter_centre randomGen ?pre m ! (5 * n + 3) = cc ! (5 * n + 3) + randomGen (2 * n) \<and>
     jitter_centre randomGen ?pre m ! (5 * n + 4) = cc ! (5 * n + 4) + randomGen (2 * n + 1)"
    if "n < Suc m" and "5 * n + 4 < length cc" for n
  proof (cases "n = m")
    case True
    have "?pre ! (5 * m + 3) = cc ! (5 * m + 3)" "?pre ! (5 * m + 4) = cc ! (5 * m + 4)"
      using keep by simp_all
    then show ?thesis
      using True that len jitter_centre_position [of m ?pre randomGen] by simp
  next
    case False
    with that have "n < m" by simp
    then have "5 * n + 3 \<noteq> 5 * m + 3" "5 * n + 3 \<noteq> 5 * m + 4"
      "5 * n + 4 \<noteq> 5 * m + 3" "5 * n + 4 \<noteq> 5 * m + 4" by simp_all
    then have "jitter_centre randomGen ?pre m ! (5 * n + 3) = ?pre ! (5 * n + 3)"
      "jitter_centre randomGen ?pre m ! (5 * n + 4) = ?pre ! (5 * n + 4)"
      by (simp_all add: jitter_centre_other)
    then show ?thesis using Suc.IH \<open>n < m\<close> that by simp
  qed
  show ?case
    unfolding step using len untouched moved by simp
qed

text \<open>
  C9. When the centres of the previous frame are reused (\<open>must_reseed\<close> is false) in a
  noise mode, \<^verbatim>\<open>initializeSLICData\<close> returns and has added the generator's samples to
  the fields 3 and 4 (x and y) of every centre; the three colour fields of every centre,
  the cluster count, the Assignment Map and the Distance Map are what they were.
\<close>

theorem noise_moves_positions_only:
  assumes "must_reseed videoMode keyFramesRatio connectedFrames st = Inr False"
    and "is_noise_mode videoMode"
  shows "\<exists>st'. initializeSLICData img S w thr videoMode keyFramesRatio randomGen connectedFrames st
            = Some (Inr st') \<and>
          clustersNumber st' = clustersNumber st \<and>
          pixelCluster st' = pixelCluster st \<and>
          distanceFromClusterCentre st' = distanceFromClusterCentre st \<and>
          length (clusterCentres st') = length (clusterCentres st) \<and>
          (\<forall>n k. k < 3 \<longrightarrow> clusterCentres st' ! (5 * n + k) = clusterCentres st ! (5 * n + k)) \<and>
          (\<forall>n<clustersNumber st. 5 * n + 4 < length (clusterCentres st) \<longrightarrow>
             clusterCentres st' ! (5 * n + 3) = clusterCentres st ! (5 * n + 3) + randomGen (2 * n) \<and>
             clusterCentres st' ! (5 * n + 4) = clusterCentres st ! (5 * n + 4) + randomGen (2 * n + 1))"
proof -
  let ?cc = "foldl (jitter_centre randomGen) (clusterCentres st) [0..<clustersNumber st]"
  let ?st' = "finish_init videoMode (add_noise randomGen st)"
  have run: "initializeSLICData img S w thr videoMode keyFramesRatio randomGen connectedFrames st
      = Some (Inr ?st')"
    using assms by (simp add: initializeSLICData_def)
  have fields: "clustersNumber ?st' = clustersNumber st" "pixelCluster ?st' = pixelCluster st"
    "distanceFromClusterCentre ?st' = distanceFromClusterCentre st"
    "clusterCentres ?st' = ?cc"
    by (simp_all add: finish_init_def add_noise_def Let_def)
  have colour: "?cc ! (5 * n + k) = clusterCentres st ! (5 * n + k)" if "k < 3" for n k
  proof -
    from that have "(5 * n + k) mod 5 < 3" by presburger
    then show ?thesis using jitter_all [of randomGen "clusterCentres st" "clustersNumber st"] by blast
  qed
  show ?thesis
    using run fields colour jitter_all [of randomGen "clusterCentres st" "clustersNumber st"]
    by simp
qed

theorem noise_moves_positions_only_witness:
  "must_reseed ADD_SUPERPIXELS_NOISE 5 True two_centre_SLIC = Inr False \<and>
   is_noise_mode ADD_SUPERPIXELS_NOISE \<and>
   map_option (map_sum id clusterCentres)
     (initializeSLICData strip_image 1 1 0 ADD_SUPERPIXELS_NOISE 5 sample_noise True
        two_centre_SLIC)
     = Some (Inr [10, 20, 30, 3 / 4, - 1 / 2, 40, 50, 60, 11 / 4, - 1 / 2])"
proof -
  have a: "must_reseed ADD_SUPERPIXELS_NOISE 5 True two_centre_SLIC = Inr False"
    by (simp add: must_reseed_def two_centre_SLIC_def is_key_mode_def is_add_mode_def)
  have b: "is_noise_mode ADD_SUPERPIXELS_NOISE"
    by (simp add: is_noise_mode_def)
  have c: "foldl (jitter_centre sample_noise) [10, 20, 30, 1 / 2, 0, 40, 50, 60, 5 / 2, 0] [0..<2]
     = [10, 20, 30, 3 / 4, - 1 / 2, 40, 50, 60, 11 / 4, - 1 / 2]"
    by (simp add: jitter_centre_def sample_noise_def upt_conv_Cons)
  from noise_moves_positions_only [OF a b, of strip_image 1 1 0 sample_noise]
  show ?thesis
    using a b c
    by (simp add: initializeSLICData_def finish_init_def add_noise_def two_centre_SLIC_def Let_def)
qed

subsection \<open>enforceConnectivity on two small assignments\<close>

text \<open>
  C5. The claim takes the average cluster size as the pixel count divided by the cluster
  count, rounded to the nearest integer. Line 570 divides two \<^verbatim>\<open>unsigned\<close> values
  first and adds 0.5 to the truncated quotient: for 15 pixels and 4 clusters it yields 3,
  not 4, the threshold \<open>3 div 4\<close> is 0, and the one-pixel component at \<open>(1, 1)\<close>, which
  the claim relabels (1 is at most a quarter of 4), keeps its label.
\<close>

theorem average_size_truncates_before_rounding:
  "clustersAverageSize stray_pixel_SLIC = 3 \<and>
   map_option (map_sum id pixelCluster) (enforceConnectivity gray_3x5 stray_pixel_SLIC)
     = Some (Inr [0, 0, 0, 2, 2,
                  0, 1, 0, 2, 3,
                  0, 0, 0, 3, 3])"
  by code_simp

text \<open>
  C6. The claim is that a second run of \<^verbatim>\<open>enforceConnectivity\<close> on the output of a
  first run changes nothing. On the 3x4 assignment below the first run keeps the one-pixel
  component at \<open>(0, 1)\<close> with its label 1 (the \<^verbatim>\<open>break\<close> of the search for an adjacent
  cluster leaves only the inner loop, so the cluster 0 found in the row above is replaced
  by the label of the pixel itself, which line 589 has just written) and merges the pixel
  \<open>(2, 2)\<close> into cluster 0; the second run then finds a labelled pixel of cluster 0 below
  \<open>(0, 1)\<close> and relabels it, and the recomputed centres differ as well.
\<close>

theorem enforceConnectivity_not_idempotent:
  "map_option (map_sum id (\<lambda>st. (pixelCluster st, clusterCentres st)))
     (enforceConnectivity gray_3x4 fragments_SLIC)
     = Some (Inr ([0, 0, 0, 0,
                   1, 2, 2, 0,
                   0, 0, 0, 0],
                  [128, 128, 128, 5 / 3, 1, 128, 128, 128, 0, 1, 128, 128, 128, 3 / 2, 1])) \<and>
   map_option (map_sum id (\<lambda>st. (pixelCluster st, clusterCentres st)))
     (enforceConnectivity_twice gray_3x4 fragments_SLIC)
     = Some (Inr ([0, 0, 0, 0,
                   0, 2, 2, 0,
                   0, 0, 0, 0],
                  [128, 128, 128, 3 / 2, 1, 0, 0, 0, 0, 0, 128, 128, 128, 3 / 2, 1]))"
  by code_simp

subsection \<open>The seeding loops\<close>

lemma int_of_unsigned_id:
  "- 2147483648 \<le> u \<Longrightarrow> u < 2147483648 \<Longrightarrow> int_of_unsigned u = u"
proof (cases "0 \<le> u")
  case True
  assume "u < 2147483648"
  with True have "u mod 4294967296 = u" by simp
  then show ?thesis using \<open>u < 2147483648\<close> by (simp add: int_of_unsigned_def)
next
  case False
  assume lo: "- 2147483648 \<le> u"
  have "(u + 4294967296) mod 4294967296 = u + 4294967296"
    using lo False by (intro mod_pos_pos_trivial) simp_all
  then have "u mod 4294967296 = u + 4294967296" by simp
  then show ?thesis using lo by (simp add: int_of_unsigned_def)
qed

lemma seed_row_eq:
  "0 < S \<Longrightarrow> int S + cols img \<le> 2147483648 \<Longrightarrow> - 2147483648 \<le> x \<Longrightarrow>
   seed_row img S y x st = Some (foldl (seed_at img y) st (grid_from S x (cols img)))"
proof (induction S x "cols img" arbitrary: st rule: grid_from.induct)
  case (1 S x)
  show ?case
  proof (cases "x < cols img")
    case True
    then have next_x: "int_of_unsigned (x + int S) = x + int S"
      using "1.prems" by (intro int_of_unsigned_id) simp_all
    from True have "seed_row img S y x st = seed_row img S y (x + int S) (push_seed img (x, y) st)"
      by (subst seed_row.simps) (simp add: next_x)
    also have "\<dots> = Some (foldl (seed_at img y) (push_seed img (x, y) st)
                            (grid_from S (x + int S) (cols img)))"
      using "1.hyps" "1.prems" True by simp
    also have "\<dots> = Some (foldl (seed_at img y) st (grid_from S x (cols img)))"
      using True "1.prems" by (subst (2) grid_from.simps) (simp add: seed_at_def)
    finally show ?thesis .
  next
    case False
    then show ?thesis
      by (subst seed_row.simps, subst grid_from.simps) simp
  qed
qed

lemma seed_grid_eq:
  "0 < S \<Longrightarrow> int S < 2147483648 \<Longrightarrow> int S + cols img \<le> 2147483648 \<Longrightarrow>
   int S + rows img \<le> 2147483648 \<Longrightarrow> - 2147483648 \<le> y \<Longrightarrow>
   seed_grid img S y st = Some (foldl (seed_line img S) st (grid_from S y (rows img)))"
proof (induction S y "rows img" arbitrary: st rule: grid_from.induct)
  case (1 S y)
  have first_x: "int_of_unsigned (int S) = int S"
    using "1.prems" by (intro int_of_unsigned_id) simp_all
  show ?case
  proof (cases "y < rows img")
    case True
    then have next_y: "int_of_unsigned (y + int S) = y + int S"
      using "1.prems" by (intro int_of_unsigned_id) simp_all
    have "seed_grid img S y st = seed_grid img S (y + int S) (seed_line img S st y)"
      using "1.prems" True
      by (subst seed_grid.simps) (simp add: seed_row_eq seed_line_def first_x next_y)
    also have "\<dots> = Some (foldl (seed_line img S) (seed_line img S st y)
                            (grid_from S (y + int S) (rows img)))"
      using "1.hyps" "1.prems" True by simp
    also have "\<dots> = Some (foldl (seed_line img S) st (grid_from S y (rows img)))"
      using True "1.prems" by (subst (2) grid_from.simps) simp
    finally show ?thesis .
  next
    case False
    then show ?thesis
      by (subst seed_grid.simps, subst grid_from.simps) simp
  qed
qed

lemma seed_line_points:
  "seed_line img S st y = foldl (seed_point img) st (grid_line (grid_from S (int S) (cols img)) y)"
proof -
  have "foldl (seed_at img y) st xs = foldl (seed_point img) st (grid_line xs y)" for xs
    by (induction xs arbitrary: st) (simp_all add: grid_line_def seed_at_def seed_point_def)
  then show ?thesis by (simp add: seed_line_def)
qed

lemma seed_lines_points:
  "foldl (seed_line img S) st ys =
   foldl (seed_point img) st (concat (map (grid_line (grid_from S (int S) (cols img))) ys))"
  by (induction ys arbitrary: st) (simp_all add: seed_line_points)

lemma seed_grid_points:
  assumes "0 < S" and "int S < 2147483648" and "int S + cols img \<le> 2147483648"
    and "int S + rows img \<le> 2147483648"
  shows "seed_grid img S (int_of_unsigned (int S)) st
           = Some (foldl (seed_point img) st (grid_points S img))"
proof -
  have "int_of_unsigned (int S) = int S"
    using assms(2) by (intro int_of_unsigned_id) simp_all
  then show ?thesis
    using assms by (simp add: seed_grid_eq seed_lines_points grid_points_def)
qed

lemma seed_row_keeps:
  assumes run: "seed_row img S y x st = Some st'"
    and keep: "\<And>p s. f (push_seed img p s) = f s"
  shows "f st' = f st"
proof -
  define Q where "Q i (n :: nat) (v :: int) (u :: int) s r \<longleftrightarrow> (i = img \<longrightarrow> f r = f s)"
    for i n v u and s r :: SLIC
  have step: "Q i n v u s r"
    if IH: "\<And>i n v u s r. g i n v u s = Some r \<Longrightarrow> Q i n v u s r"
      and eq: "(if u < cols i then g i n v (int_of_unsigned (u + int n)) (push_seed i (u, v) s)
                else Some s) = Some r"
    for g i and n :: nat and v u :: int and s r :: SLIC
  proof (cases "u < cols i")
    case True
    then have "g i n v (int_of_unsigned (u + int n)) (push_seed i (u, v) s) = Some r"
      using eq by simp
    from IH [OF this] show ?thesis by (simp add: Q_def keep)
  next
    case False
    then show ?thesis using eq by (simp add: Q_def)
  qed
  have "Q img S y x st st'"
    by (rule seed_row.raw_induct
          [where P = Q and xa = "((((img, S), y), x), st)" and ya = st', simplified, OF _ run])
       (rule step)
  then show ?thesis by (simp add: Q_def)
qed

lemma seed_grid_keeps:
  assumes run: "seed_grid img S y st = Some st'"
    and keep: "\<And>p s. f (push_seed img p s) = f s"
  shows "f st' = f st"
proof -
  define Q where "Q i (n :: nat) (v :: int) s r \<longleftrightarrow> (i = img \<longrightarrow> f r = f s)"
    for i n v and s r :: SLIC
  have step: "Q i n v s r"
    if IH: "\<And>i n v s r. g i n v s = Some r \<Longrightarrow> Q i n v s r"
      and eq: "(if v < rows i
                then Option.bind (seed_row i n v (int_of_unsigned (int n)) s)
                       (g i n (int_of_unsigned (v + int n)))
                else Some s) = Some r"
    for g i and n :: nat and v :: int and s r :: SLIC
  proof (cases "v < rows i")
    case True
    then obtain s1 where row: "seed_row i n v (int_of_unsigned (int n)) s = Some s1"
      and rest: "g i n (int_of_unsigned (v + int n)) s1 = Some r"
      using eq by (auto simp: bind_eq_Some_conv)
    show ?thesis
      unfolding Q_def
    proof
      assume i: "i = img"
      have "f s1 = f s" using row keep unfolding i by (rule seed_row_keeps)
      moreover have "f r = f s1" using IH [OF rest] i by (simp add: Q_def)
      ultimately show "f r = f s" by simp
    qed
  next
    case False
    then show ?thesis using eq by (simp add: Q_def)
  qed
  have "Q img S y st st'"
    by (rule seed_grid.raw_induct [where P = Q, OF _ run]) (rule step)
  then show ?thesis by (simp add: Q_def)
qed

text \<open>What a reseed that returns leaves in the members that the seeding loops do not touch.\<close>

lemma reseed_untouched:
  assumes "must_reseed videoMode keyFramesRatio connectedFrames st = Inr True"
    and "initializeSLICData img S w thr videoMode keyFramesRatio randomGen connectedFrames st
           = Some (Inr st')"
  shows "(S * S) mod 2 ^ 32 \<noteq> 0"
    and "pixelCluster st' = replicate (nat (rows img * cols img)) (- 1)"
    and "distanceFactor st' = real w * real w / real ((S * S) mod 2 ^ 32)"
    and "spatialDistanceWeight st' = w" and "samplingStep st' = S"
proof -
  show nz: "(S * S) mod 2 ^ 32 \<noteq> 0"
  proof
    assume "(S * S) mod 2 ^ 32 = 0"
    then have "reset_for_seeding img S w thr st = Inl DivisionByZero"
      by (simp add: reset_for_seeding_def Let_def)
    then show False using assms by (simp add: initializeSLICData_def)
  qed
  obtain st1 where st1: "reset_for_seeding img S w thr st = Inr st1"
    and f1: "pixelCluster st1 = replicate (nat (rows img * cols img)) (- 1)"
      "distanceFactor st1 = real w * real w / real ((S * S) mod 2 ^ 32)"
      "spatialDistanceWeight st1 = w" "samplingStep st1 = S"
    using nz by (simp add: reset_for_seeding_def clearSLICData_def Let_def)
  from assms st1 obtain st2 where grid: "seed_grid img S (int_of_unsigned (int S)) st1 = Some st2"
    and st': "st' = finish_init videoMode (st2\<lparr>clustersNumber := length (pixelsOfSameCluster st2)\<rparr>)"
    by (auto simp: initializeSLICData_def)
  have keep: "pixelCluster st2 = pixelCluster st1" "distanceFactor st2 = distanceFactor st1"
    "spatialDistanceWeight st2 = spatialDistanceWeight st1" "samplingStep st2 = samplingStep st1"
    by (rule seed_grid_keeps [OF grid], simp add: push_seed_def Let_def)+
  show "pixelCluster st' = replicate (nat (rows img * cols img)) (- 1)"
    "distanceFactor st' = real w * real w / real ((S * S) mod 2 ^ 32)"
    "spatialDistanceWeight st' = w" "samplingStep st' = S"
    by (simp_all add: st' finish_init_def Let_def keep f1)
qed

lemma seed_point_fields:
  "clusterCentres (seed_point img st p) = clusterCentres st @ seed_centre img p"
  "previousClusterCentres (seed_point img st p) = previousClusterCentres st @ seed_centre img p"
  "pixelsOfSameCluster (seed_point img st p) = pixelsOfSameCluster st @ [0]"
  "residualError (seed_point img st p) = residualError st @ [0]"
  "pixelCluster (seed_point img st p) = pixelCluster st"
  "distanceFromClusterCentre (seed_point img st p) = distanceFromClusterCentre st"
  "pixelReachedByClusters (seed_point img st p) = pixelReachedByClusters st"
  "distanceFactor (seed_point img st p) = distanceFactor st"
  "pixelsNumber (seed_point img st p) = pixelsNumber st"
  "samplingStep (seed_point img st p) = samplingStep st"
  by (simp_all add: seed_point_def push_seed_def seed_centre_def Let_def)

lemma seed_points_fields:
  "clusterCentres (foldl (seed_point img) st ps) = clusterCentres st @ concat (map (seed_centre img) ps)"
  "previousClusterCentres (foldl (seed_point img) st ps)
     = previousClusterCentres st @ concat (map (seed_centre img) ps)"
  "pixelsOfSameCluster (foldl (seed_point img) st ps) = pixelsOfSameCluster st @ replicate (length ps) 0"
  "residualError (foldl (seed_point img) st ps) = residualError st @ replicate (length ps) 0"
  "pixelCluster (foldl (seed_point img) st ps) = pixelCluster st"
  "distanceFromClusterCentre (foldl (seed_point img) st ps) = distanceFromClusterCentre st"
  "pixelReachedByClusters (foldl (seed_point img) st ps) = pixelReachedByClusters st"
  "distanceFactor (foldl (seed_point img) st ps) = distanceFactor st"
  "pixelsNumber (foldl (seed_point img) st ps) = pixelsNumber st"
  "samplingStep (foldl (seed_point img) st ps) = samplingStep st"
  by (induction ps arbitrary: st; simp add: seed_point_fields replicate_append_same)+

subsection \<open>findLowestGradient\<close>

lemma val0_bounds: "0 \<le> val0 c" "val0 c \<le> 255"
proof -
  show "0 \<le> val0 c" by (simp add: val0_def)
  have "uint (fst c) < 2 ^ 8" using uint_bounded [of "fst c"] by simp
  then show "val0 c \<le> 255" by (simp add: val0_def)
qed

lemma square_diff_bound:
  fixes a b :: int
  assumes "0 \<le> a" "a \<le> 255" "0 \<le> b" "b \<le> 255"
  shows "0 \<le> (a - b) * (a - b)" "(a - b) * (a - b) \<le> 65025"
proof -
  show "0 \<le> (a - b) * (a - b)" by simp
  have "\<bar>a - b\<bar> \<le> 255" using assms by linarith
  then have "\<bar>a - b\<bar> * \<bar>a - b\<bar> \<le> 255 * 255"
    by (intro mult_mono) simp_all
  then show "(a - b) * (a - b) \<le> 65025" by (simp add: abs_mult_self_eq)
qed

lemma tempGradient_below_UINT_MAX: "tempGradient img x y < UINT_MAX"
proof -
  let ?h = "(val0 (at_Vec3b img y (x + 1)) - val0 (at_Vec3b img y (x - 1))) *
            (val0 (at_Vec3b img y (x + 1)) - val0 (at_Vec3b img y (x - 1)))"
  let ?v = "(val0 (at_Vec3b img (y - 1) x) - val0 (at_Vec3b img (y + 1) x)) *
            (val0 (at_Vec3b img (y - 1) x) - val0 (at_Vec3b img (y + 1) x))"
  have "0 \<le> ?h" "?h \<le> 65025" "0 \<le> ?v" "?v \<le> 65025"
    by (simp_all add: square_diff_bound val0_bounds)
  then have "0 \<le> ?h + ?v" "?h + ?v \<le> 130050" by linarith+
  then have "(?h + ?v) mod 2 ^ 32 \<le> 130050" by simp
  then show ?thesis
    unfolding tempGradient_def UINT_MAX_def by linarith
qed

lemma tempGradient_magnitude:
  "int (tempGradient img x y) = gradient_magnitude img (x, y)"
proof -
  let ?h = "(val0 (at_Vec3b img y (x + 1)) - val0 (at_Vec3b img y (x - 1))) *
            (val0 (at_Vec3b img y (x + 1)) - val0 (at_Vec3b img y (x - 1)))"
  let ?v = "(val0 (at_Vec3b img (y - 1) x) - val0 (at_Vec3b img (y + 1) x)) *
            (val0 (at_Vec3b img (y - 1) x) - val0 (at_Vec3b img (y + 1) x))"
  have "0 \<le> ?h" "?h \<le> 65025" "0 \<le> ?v" "?v \<le> 65025"
    by (simp_all add: square_diff_bound val0_bounds)
  then have range: "0 \<le> ?h + ?v" "?h + ?v < 2 ^ 32" by simp_all
  then have "(?h + ?v) mod 2 ^ 32 = ?h + ?v" by (intro mod_pos_pos_trivial)
  then have "int (tempGradient img x y) = ?h + ?v"
    unfolding tempGradient_def using range(1) by simp
  also have "?h = (first_channel img (x + 1) y - first_channel img (x - 1) y)\<^sup>2"
    by (simp add: first_channel_def val0_def power2_eq_square)
  also have "?v = (first_channel img x (y + 1) - first_channel img x (y - 1))\<^sup>2"
    by (simp add: first_channel_def val0_def power2_eq_square algebra_simps)
  finally show ?thesis by (simp add: gradient_magnitude_def)
qed

lemma lowest_step_inv:
  assumes "lowest_of img p seen acc"
  shows "lowest_of img p (if x < 1 \<or> y < 1 then seen else insert (x, y) seen)
           (lowest_step img y acc x)"
proof (cases "x < 1 \<or> y < 1")
  case True
  then show ?thesis using assms by (simp add: lowest_step_def)
next
  case False
  have below: "tempGradient img x y < UINT_MAX"
    by (rule tempGradient_below_UINT_MAX)
  note mag = tempGradient_magnitude [of img x y]
  show ?thesis
  proof (cases "tempGradient img x y < fst acc")
    case True
    then have "lowest_step img y acc x = (tempGradient img x y, (x, y))"
      using False by (simp add: lowest_step_def)
    moreover have "\<forall>r \<in> seen. int (tempGradient img x y) \<le> gradient_magnitude img r"
      using assms True by (cases "seen = {}") (auto simp: lowest_of_def)
    ultimately show ?thesis
      using False mag by (simp add: lowest_of_def)
  next
    case no_update: False
    then have same: "lowest_step img y acc x = acc"
      using False by (simp add: lowest_step_def)
    have "seen \<noteq> {}"
    proof
      assume "seen = {}"
      then have "fst acc = UINT_MAX" using assms by (simp add: lowest_of_def)
      then show False using no_update below by simp
    qed
    moreover have "int (fst acc) \<le> gradient_magnitude img (x, y)"
      using no_update mag by simp
    ultimately show ?thesis
      using assms False unfolding same
      by (auto simp: lowest_of_def)
  qed
qed

lemma lowest_row_inv:
  assumes "lowest_of img p seen acc"
  shows "lowest_of img p (seen \<union> {(x, y) | x. x \<in> set xs \<and> 1 \<le> x \<and> 1 \<le> y})
           (foldl (lowest_step img y) acc xs)"
  using assms
proof (induction xs arbitrary: seen acc)
  case Nil
  then show ?case by simp
next
  case (Cons x xs)
  let ?seen1 = "if x < 1 \<or> y < 1 then seen else insert (x, y) seen"
  have "lowest_of img p (?seen1 \<union> {(x', y) | x'. x' \<in> set xs \<and> 1 \<le> x' \<and> 1 \<le> y})
          (foldl (lowest_step img y) (lowest_step img y acc x) xs)"
    by (rule Cons.IH) (rule lowest_step_inv [OF Cons.prems])
  moreover have "?seen1 \<union> {(x', y) | x'. x' \<in> set xs \<and> 1 \<le> x' \<and> 1 \<le> y}
      = seen \<union> {(x', y) | x'. x' \<in> set (x # xs) \<and> 1 \<le> x' \<and> 1 \<le> y}"
    by auto
  ultimately show ?case by simp
qed

lemma lowest_rows_inv:
  assumes "lowest_of img p seen acc"
  shows "lowest_of img p
           (seen \<union> {(x, y) | x y. y \<in> set ys \<and>
                       x \<in> {fst c - 1 .. min (fst c + 1) (cols img - 2)} \<and> 1 \<le> x \<and> 1 \<le> y})
           (foldl (lowest_row img c) acc ys)"
  using assms
proof (induction ys arbitrary: seen acc)
  case Nil
  then show ?case by simp
next
  case (Cons y ys)
  let ?xs = "[fst c - 1 .. min (fst c + 1) (cols img - 2)]"
  let ?seen1 = "seen \<union> {(x, y) | x. x \<in> set ?xs \<and> 1 \<le> x \<and> 1 \<le> y}"
  have 1: "lowest_of img p ?seen1 (lowest_row img c acc y)"
    unfolding lowest_row_def by (rule lowest_row_inv [OF Cons.prems])
  have "lowest_of img p
          (?seen1 \<union> {(x, y') | x y'. y' \<in> set ys \<and>
                       x \<in> {fst c - 1 .. min (fst c + 1) (cols img - 2)} \<and> 1 \<le> x \<and> 1 \<le> y'})
          (foldl (lowest_row img c) (lowest_row img c acc y) ys)"
    by (rule Cons.IH [OF 1])
  moreover have "?seen1 \<union> {(x, y') | x y'. y' \<in> set ys \<and>
                       x \<in> {fst c - 1 .. min (fst c + 1) (cols img - 2)} \<and> 1 \<le> x \<and> 1 \<le> y'}
      = seen \<union> {(x, y') | x y'. y' \<in> set (y # ys) \<and>
                       x \<in> {fst c - 1 .. min (fst c + 1) (cols img - 2)} \<and> 1 \<le> x \<and> 1 \<le> y'}"
    by auto
  ultimately show ?case by simp
qed

lemma findLowestGradient_lowest: "lowest_in_window img p (findLowestGradient img p)"
proof -
  let ?ys = "[snd p - 1 .. min (snd p + 1) (rows img - 2)]"
  let ?acc = "foldl (lowest_row img p) (UINT_MAX, p) ?ys"
  have "lowest_of img p {} (UINT_MAX, p)" by (simp add: lowest_of_def)
  from lowest_rows_inv [OF this, of ?ys p]
  have "lowest_of img p
          {(x, y) | x y. y \<in> set ?ys \<and>
             x \<in> {fst p - 1 .. min (fst p + 1) (cols img - 2)} \<and> 1 \<le> x \<and> 1 \<le> y} ?acc"
    by simp
  moreover have "{(x, y) | x y. y \<in> set ?ys \<and>
             x \<in> {fst p - 1 .. min (fst p + 1) (cols img - 2)} \<and> 1 \<le> x \<and> 1 \<le> y}
      = search_area img p"
    by (auto simp: search_area_def)
  ultimately have "lowest_of img p (search_area img p) ?acc" by simp
  then show ?thesis
    by (auto simp: lowest_in_window_def lowest_of_def findLowestGradient_def split: if_splits)
qed

subsection \<open>The grid of the Seeder\<close>

lemma grid_from_set:
  "0 < S \<Longrightarrow> set (grid_from S x b) = {z. \<exists>k::nat. z = x + int S * int k \<and> z < b}"
proof (induction S x b rule: grid_from.induct)
  case (1 S x b)
  show ?case
  proof (cases "x < b")
    case True
    have "set (grid_from S x b) = insert x (set (grid_from S (x + int S) b))"
      using True "1.prems" by (subst grid_from.simps) simp
    also have "\<dots> = insert x {z. \<exists>k::nat. z = x + int S + int S * int k \<and> z < b}"
      using "1.IH" True "1.prems" by simp
    also have "\<dots> = {z. \<exists>k::nat. z = x + int S * int k \<and> z < b}"
    proof (intro set_eqI iffI)
      fix z assume "z \<in> insert x {z. \<exists>k::nat. z = x + int S + int S * int k \<and> z < b}"
      then consider "z = x" | k :: nat where "z = x + int S + int S * int k" "z < b" by auto
      then show "z \<in> {z. \<exists>k::nat. z = x + int S * int k \<and> z < b}"
      proof cases
        case 1
        then have "z = x + int S * int 0 \<and> z < b" using True by simp
        then show ?thesis by blast
      next
        case 2
        then have "z = x + int S * int (Suc k) \<and> z < b" by (simp add: algebra_simps)
        then show ?thesis by blast
      qed
    next
      fix z assume "z \<in> {z. \<exists>k::nat. z = x + int S * int k \<and> z < b}"
      then obtain k :: nat where k: "z = x + int S * int k" "z < b" by auto
      show "z \<in> insert x {z. \<exists>k::nat. z = x + int S + int S * int k \<and> z < b}"
      proof (cases k)
        case 0
        then show ?thesis using k by simp
      next
        case (Suc j)
        then have "z = x + int S + int S * int j" using k by (simp add: algebra_simps)
        then show ?thesis using k by blast
      qed
    qed
    finally show ?thesis .
  next
    case False
    have "x + int S * int k \<ge> b" for k :: nat
    proof -
      have "0 \<le> int S * int k" by simp
      then show ?thesis using False by linarith
    qed
    then have "\<not> (x + int S * int k < b)" for k :: nat
      by (simp add: not_less)
    then have "{z. \<exists>k::nat. z = x + int S * int k \<and> z < b} = {}" by blast
    moreover have "grid_from S x b = []"
      using False by (subst grid_from.simps) simp
    ultimately show ?thesis by simp
  qed
qed

lemma grid_from_multiples:
  assumes "0 < S"
  shows "set (grid_from S (int S) b) = {z. 0 < z \<and> z < b \<and> int S dvd z}"
proof (intro set_eqI iffI)
  fix z assume "z \<in> set (grid_from S (int S) b)"
  then obtain k :: nat where k: "z = int S + int S * int k" "z < b"
    using grid_from_set [OF assms] by auto
  then have "z = int S * (int k + 1)" by (simp add: algebra_simps)
  moreover have "0 < int S * (int k + 1)" using assms by simp
  ultimately show "z \<in> {z. 0 < z \<and> z < b \<and> int S dvd z}" using k by simp
next
  fix z assume "z \<in> {z. 0 < z \<and> z < b \<and> int S dvd z}"
  then obtain m where m: "z = int S * m" "0 < z" "z < b" by (auto simp: dvd_def)
  then have "0 < m" using assms by (simp add: zero_less_mult_iff)
  then have "z = int S + int S * int (nat (m - 1))" using m by (simp add: algebra_simps)
  then show "z \<in> set (grid_from S (int S) b)"
    using grid_from_set [OF assms] m by blast
qed

lemma grid_from_distinct: "distinct (grid_from S x b)"
proof (induction S x b rule: grid_from.induct)
  case (1 S x b)
  show ?case
  proof (cases "0 < S \<and> x < b")
    case True
    then have eq: "grid_from S x b = x # grid_from S (x + int S) b"
      by (subst grid_from.simps) simp
    have "x + int S + int S * int k \<noteq> x" for k :: nat
    proof -
      have "0 < int S + int S * int k" using True by (simp add: add_pos_nonneg)
      then show ?thesis by linarith
    qed
    then have "x \<notin> set (grid_from S (x + int S) b)"
      using True grid_from_set [of S "x + int S" b] by auto
    then show ?thesis using eq "1.IH" True by simp
  next
    case False
    then have "grid_from S x b = []" by (subst grid_from.simps) auto
    then show ?thesis by simp
  qed
qed

lemma grid_lines_set:
  "set (concat (map (grid_line xs) ys)) = {(x, y). x \<in> set xs \<and> y \<in> set ys}"
  by (auto simp: grid_line_def)

lemma grid_lines_distinct:
  "distinct xs \<Longrightarrow> distinct ys \<Longrightarrow> distinct (concat (map (grid_line xs) ys))"
proof (induction ys)
  case Nil
  show ?case by simp
next
  case (Cons y ys)
  have "distinct (grid_line xs y)"
    using Cons.prems by (simp add: grid_line_def distinct_map inj_on_def)
  moreover have "set (grid_line xs y) \<inter> set (concat (map (grid_line xs) ys)) = {}"
    using Cons.prems unfolding grid_lines_set by (auto simp: grid_line_def)
  ultimately show ?case using Cons by simp
qed

lemma grid_points_set:
  "0 < S \<Longrightarrow> set (grid_points S img)
     = {(x, y). 0 < x \<and> x < cols img \<and> int S dvd x \<and> 0 < y \<and> y < rows img \<and> int S dvd y}"
  unfolding grid_points_def grid_lines_set by (auto simp: grid_from_multiples)

lemma grid_points_distinct: "distinct (grid_points S img)"
  unfolding grid_points_def by (intro grid_lines_distinct grid_from_distinct)

lemma grid_points_100_20:
  "rows img = 100 \<Longrightarrow> cols img = 100 \<Longrightarrow>
   grid_points 20 img =
     [(20, 20), (40, 20), (60, 20), (80, 20), (20, 40), (40, 40), (60, 40), (80, 40),
      (20, 60), (40, 60), (60, 60), (80, 60), (20, 80), (40, 80), (60, 80), (80, 80)]"
proof -
  have "grid_from 20 20 100 = [20, 40, 60, 80]"
    by (simp add: grid_from.simps)
  then show "rows img = 100 \<Longrightarrow> cols img = 100 \<Longrightarrow> ?thesis"
    by (simp add: grid_points_def grid_line_def)
qed

lemma seed_centre_length [simp]: "length (seed_centre img p) = 5"
  by (simp add: seed_centre_def Let_def)

lemma concat_fives_nth:
  assumes "\<And>p. length (f p) = 5" and "i < length ps" and "k < 5"
  shows "concat (map f ps) ! (5 * i + k) = f (ps ! i) ! k"
  using assms(2)
proof (induction ps arbitrary: i)
  case Nil
  then show ?case by simp
next
  case (Cons p ps)
  show ?case
  proof (cases i)
    case 0
    then show ?thesis using assms(1,3) by (simp add: nth_append)
  next
    case (Suc j)
    then have "j < length ps" using Cons.prems by simp
    then have "concat (map f ps) ! (5 * j + k) = f (ps ! j) ! k" by (rule Cons.IH)
    moreover have "5 * i + k = 5 + (5 * j + k)" using Suc by simp
    ultimately show ?thesis using assms(1) Suc by (simp add: nth_append)
  qed
qed

lemma seed_centre_position:
  "seed_centre img p ! 3 = real_of_int (fst (findLowestGradient img p))"
  "seed_centre img p ! 4 = real_of_int (snd (findLowestGradient img p))"
  by (simp_all add: seed_centre_def Let_def)

lemma initializeSLICData_reseed:
  assumes "must_reseed videoMode keyFramesRatio connectedFrames st = Inr True"
    and "(S * S) mod 2 ^ 32 \<noteq> 0"
    and "int S < 2147483648"
    and "int S + cols img \<le> 2147483648" and "int S + rows img \<le> 2147483648"
  shows "\<exists>st'. initializeSLICData img S w thr videoMode keyFramesRatio randomGen connectedFrames st
            = Some (Inr st') \<and>
          clustersNumber st' = length (grid_points S img) \<and>
          clusterCentres st' = concat (map (seed_centre img) (grid_points S img)) \<and>
          previousClusterCentres st' = clusterCentres st' \<and>
          pixelsOfSameCluster st' = replicate (length (grid_points S img)) 0"
proof -
  from assms(2) have S: "0 < S" by (cases S) simp_all
  obtain st1 where st1: "reset_for_seeding img S w thr st = Inr st1"
    and f1: "clusterCentres st1 = []" "previousClusterCentres st1 = []"
      "pixelsOfSameCluster st1 = []"
    using assms(2) by (simp add: reset_for_seeding_def clearSLICData_def Let_def)
  let ?st2 = "foldl (seed_point img) st1 (grid_points S img)"
  let ?st' = "finish_init videoMode (?st2\<lparr>clustersNumber := length (pixelsOfSameCluster ?st2)\<rparr>)"
  have "seed_grid img S (int_of_unsigned (int S)) st1 = Some ?st2"
    using S assms(3,4,5) by (rule seed_grid_points)
  then have "initializeSLICData img S w thr videoMode keyFramesRatio randomGen connectedFrames st
      = Some (Inr ?st')"
    using assms(1) st1 by (simp add: initializeSLICData_def)
  moreover have "clustersNumber ?st' = length (grid_points S img)"
    "clusterCentres ?st' = concat (map (seed_centre img) (grid_points S img))"
    "previousClusterCentres ?st' = clusterCentres ?st'"
    "pixelsOfSameCluster ?st' = replicate (length (grid_points S img)) 0"
    by (simp_all add: finish_init_def Let_def seed_points_fields f1)
  ultimately show ?thesis by blast
qed

text \<open>
  C8. On a full reseed with a sampling step \<open>S\<close> for which the \<^verbatim>\<open>int\<close> counters of the
  seeding loops do not wrap (\<open>S < 2\<^sup>3\<^sup>1\<close>, \<open>S + cols \<le> 2\<^sup>3\<^sup>1\<close>, \<open>S + rows \<le> 2\<^sup>3\<^sup>1\<close>) and
  whose square is not zero as an \<^verbatim>\<open>unsigned\<close>, \<^verbatim>\<open>initializeSLICData\<close> returns with one
  centre per grid point, in the order of the loops; the grid points are the \<open>(x, y)\<close>
  inside the image whose coordinates are positive multiples of \<open>S\<close>, each once; the
  position of centre \<open>i\<close> is what \<^verbatim>\<open>findLowestGradient\<close> returns for grid point \<open>i\<close>,
  and that is a pixel whose gradient magnitude (squared horizontal plus squared vertical
  difference of the first channel) is lowest among the non-border pixels of the 3x3
  neighbourhood (the grid point itself if there is none); the \<^verbatim>\<open>unsigned\<close> value
  \<^verbatim>\<open>tempGradient\<close> that the code compares is that magnitude; the cluster count is the
  number of grid points. A 100x100 image with step 20 gets the 16 grid points of a 4x4 grid.
\<close>

theorem seeder_places_grid:
  assumes "must_reseed videoMode keyFramesRatio connectedFrames st = Inr True"
    and "(S * S) mod 2 ^ 32 \<noteq> 0"
    and "int S < 2147483648"
    and "int S + cols img \<le> 2147483648" and "int S + rows img \<le> 2147483648"
  shows "(\<exists>st'. initializeSLICData img S w thr videoMode keyFramesRatio randomGen connectedFrames st
            = Some (Inr st') \<and>
          clustersNumber st' = length (grid_points S img) \<and>
          length (clusterCentres st') = 5 * length (grid_points S img) \<and>
          (\<forall>i < length (grid_points S img).
             clusterCentres st' ! (5 * i + 3)
               = real_of_int (fst (findLowestGradient img (grid_points S img ! i))) \<and>
             clusterCentres st' ! (5 * i + 4)
               = real_of_int (snd (findLowestGradient img (grid_points S img ! i)))) \<and>
          (rows img = 100 \<and> cols img = 100 \<and> S = 20 \<longrightarrow> clustersNumber st' = 16)) \<and>
         set (grid_points S img)
           = {(x, y). 0 < x \<and> x < cols img \<and> int S dvd x \<and>
                      0 < y \<and> y < rows img \<and> int S dvd y} \<and>
         distinct (grid_points S img) \<and>
         (\<forall>p. lowest_in_window img p (findLowestGradient img p)) \<and>
         (\<forall>x y. int (tempGradient img x y) = gradient_magnitude img (x, y)) \<and>
         (rows img = 100 \<and> cols img = 100 \<and> S = 20 \<longrightarrow>
            grid_points S img =
              [(20, 20), (40, 20), (60, 20), (80, 20), (20, 40), (40, 40), (60, 40), (80, 40),
               (20, 60), (40, 60), (60, 60), (80, 60), (20, 80), (40, 80), (60, 80), (80, 80)])"
proof -
  from assms(2) have S: "0 < S" by (cases S) simp_all
  obtain st' where run: "initializeSLICData img S w thr videoMode keyFramesRatio randomGen
        connectedFrames st = Some (Inr st')"
    and n: "clustersNumber st' = length (grid_points S img)"
    and cc: "clusterCentres st' = concat (map (seed_centre img) (grid_points S img))"
    using initializeSLICData_reseed [OF assms] by blast
  have "length (concat (map (seed_centre img) ps)) = 5 * length ps" for ps
    by (induction ps) simp_all
  then have len: "length (clusterCentres st') = 5 * length (grid_points S img)"
    unfolding cc by simp
  have pos: "clusterCentres st' ! (5 * i + 3)
               = real_of_int (fst (findLowestGradient img (grid_points S img ! i))) \<and>
             clusterCentres st' ! (5 * i + 4)
               = real_of_int (snd (findLowestGradient img (grid_points S img ! i)))"
    if "i < length (grid_points S img)" for i
    unfolding cc using that
    by (simp add: concat_fives_nth [where f = "seed_centre img"] seed_centre_position)
  have sixteen: "clustersNumber st' = 16" if "rows img = 100 \<and> cols img = 100 \<and> S = 20"
    using that n grid_points_100_20 [of img] by simp
  show ?thesis
    using run n len pos sixteen grid_points_set [OF S] grid_points_distinct
      findLowestGradient_lowest tempGradient_magnitude grid_points_100_20
    by blast
qed

theorem seeder_places_grid_witness:
  "must_reseed INDEPENDENT 1 False fresh_SLIC = Inr True \<and>
   (20 * 20) mod 2 ^ 32 \<noteq> (0 :: nat) \<and>
   int 20 < 2147483648 \<and> int 20 + cols gray_100x100 \<le> 2147483648 \<and>
   int 20 + rows gray_100x100 \<le> 2147483648 \<and>
   (\<exists>st'. initializeSLICData gray_100x100 20 10 0 INDEPENDENT 1 no_noise False fresh_SLIC
            = Some (Inr st') \<and> clustersNumber st' = 16)"
proof -
  have a: "must_reseed INDEPENDENT 1 False fresh_SLIC = Inr True"
    by (simp add: must_reseed_def)
  have b: "(20 * 20) mod 2 ^ 32 \<noteq> (0 :: nat)" by simp
  have c: "rows gray_100x100 = 100 \<and> cols gray_100x100 = 100"
    by (simp add: gray_100x100_def)
  have d: "int 20 < 2147483648" "int 20 + cols gray_100x100 \<le> 2147483648"
    "int 20 + rows gray_100x100 \<le> 2147483648"
    using c by simp_all
  from seeder_places_grid [OF a b d, of 10 0 no_noise] c
  show ?thesis using a b d by auto
qed

subsection \<open>Fields that the steps of the loop leave alone\<close>

lemma foldl_keeps:
  assumes "\<And>s x. g (f s x) = g s"
  shows "g (foldl f s xs) = g s"
  by (induction xs arbitrary: s) (simp_all add: assms)

lemma for_each_keeps:
  assumes "\<And>n s s'. f n s = Inr s' \<Longrightarrow> g s' = g s"
    and "for_each ns f s = Inr s'"
  shows "g s' = g s"
  using assms(2)
proof (induction ns arbitrary: s)
  case Nil
  then show ?case by simp
next
  case (Cons n ns)
  then obtain s1 where 1: "f n s = Inr s1" and 2: "for_each ns f s1 = Inr s'"
    by (cases "f n s") simp_all
  from Cons.IH [OF 2] assms(1) [OF 1] show ?case by simp
qed

lemma visit_pixel_settings: "settings (visit_pixel img videoMode c y st x) = settings st"
  by (simp add: visit_pixel_def settings_def Let_def)

lemma visit_pixel_centres:
  "clusterCentres (visit_pixel img videoMode c y st x) = clusterCentres st"
  "clustersNumber (visit_pixel img videoMode c y st x) = clustersNumber st"
  by (simp_all add: visit_pixel_def Let_def)

lemma scan_row_settings: "settings (scan_row img S videoMode c st y) = settings st"
  unfolding scan_row_def by (rule foldl_keeps) (rule visit_pixel_settings)

lemma scan_window_settings: "settings (scan_window img S videoMode st c) = settings st"
  unfolding scan_window_def by (rule foldl_keeps) (rule scan_row_settings)

lemma assignPixels_settings: "settings (assignPixels order img S videoMode st) = settings st"
proof -
  have "settings (foldl (scan_window img S videoMode) s order) = settings s" for s
    by (rule foldl_keeps) (rule scan_window_settings)
  then show ?thesis by (simp add: assignPixels_def settings_def)
qed

lemma accumulate_pixel_settings: "settings (accumulate_pixel img y st x) = settings st"
  by (simp add: accumulate_pixel_def settings_def Let_def)

lemma accumulate_settings: "settings (accumulate img st) = settings st"
  unfolding accumulate_def accumulate_row_def
  by (intro foldl_keeps accumulate_pixel_settings)

lemma normalizeCentres_settings:
  assumes "normalizeCentres st = Inr st'"
  shows "settings st' = settings st"
proof (rule for_each_keeps [OF _ assms [unfolded normalizeCentres_def]])
  fix n s s' assume "normalize_centre n s = Inr s'"
  then show "settings s' = settings s"
    by (auto simp: normalize_centre_def Let_def settings_def div_double_def bindF_def
        split: if_splits)
qed

lemma updateCentres_settings:
  assumes "updateCentres img st = Inr st'"
  shows "settings st' = settings st"
  using normalizeCentres_settings [OF assms [unfolded updateCentres_def]]
  by (simp add: accumulate_settings) (simp add: settings_def)

lemma residual_centre_settings: "settings (residual_centre st c) = settings st"
  by (simp add: residual_centre_def settings_def Let_def)

lemma computeResidualError_settings:
  assumes "computeResidualError st = Inr st'"
  shows "settings st' = settings st"
proof (cases "iterationIndex st = 0")
  case True
  then show ?thesis using assms by (auto simp: computeResidualError_def settings_def)
next
  case False
  have "settings (foldl residual_centre st cs) = settings st" for cs
    by (rule foldl_keeps) (rule residual_centre_settings)
  then show ?thesis
    using assms False
    by (auto simp: computeResidualError_def Let_def settings_def div_double_def bindF_def
        split: if_splits)
qed

lemma spawn_centre_settings: "settings (spawn_centre st mu) = settings st"
  by (cases mu) (simp add: spawn_centre_def settings_def)

lemma orphanRecovery_settings: "settings (orphanRecovery contourMoments img st) = settings st"
  unfolding orphanRecovery_def by (rule foldl_keeps) (rule spawn_centre_settings)

lemma loop_body_settings:
  assumes "loop_body schedule contourMoments img S iterationNumber thr SLICMode videoMode gs
             = Inr gs'"
  shows "settings (snd gs') = settings (snd gs)"
proof -
  let ?st0 = "assignPixels (schedule (clustersNumber (snd gs))) img S videoMode (snd gs)"
  from assms obtain st1 where 1: "updateCentres img ?st0 = Inr st1"
    by (cases "updateCentres img ?st0") (simp_all add: loop_body_def assign_update_def)
  from assms 1 obtain st2 where 2: "computeResidualError st1 = Inr st2"
    by (cases "computeResidualError st1") (simp_all add: loop_body_def assign_update_def)
  have "settings st2 = settings (snd gs)"
    using computeResidualError_settings [OF 2] updateCentres_settings [OF 1]
    by (simp add: assignPixels_settings)
  moreover have "settings (snd gs') = settings st2"
    using assms 1 2 orphanRecovery_settings [of contourMoments img st2]
    by (auto simp: loop_body_def assign_update_def Let_def settings_def split: if_splits)
  ultimately show ?thesis by simp
qed

lemma factor_ok_settings: "settings st' = settings st \<Longrightarrow> factor_ok st' = factor_ok st"
  by (simp add: factor_ok_def settings_def)

subsection \<open>The combined distance\<close>

lemma computeDistance_eq:
  "computeDistance st c (x, y) col =
     (clusterCentres st ! (5 * c) - real_of_int (val0 col))\<^sup>2 +
     (clusterCentres st ! (5 * c + 1) - real_of_int (val1 col))\<^sup>2 +
     (clusterCentres st ! (5 * c + 2) - real_of_int (val2 col))\<^sup>2 +
     distanceFactor st *
       ((clusterCentres st ! (5 * c + 3) - real_of_int x)\<^sup>2 +
        (clusterCentres st ! (5 * c + 4) - real_of_int y)\<^sup>2)"
  by (simp add: computeDistance_def Let_def power2_eq_square)

lemma reseed_factor_ok:
  assumes "must_reseed videoMode keyFramesRatio connectedFrames st = Inr True"
    and "0 < S" and "S * S < 2 ^ 32"
    and "initializeSLICData img S w thr videoMode keyFramesRatio randomGen connectedFrames st
           = Some (Inr st')"
  shows "factor_ok st' \<and> spatialDistanceWeight st' = w \<and> samplingStep st' = S"
proof -
  have "distanceFactor st' = real w * real w / real ((S * S) mod 2 ^ 32)"
    "spatialDistanceWeight st' = w" "samplingStep st' = S"
    by (rule reseed_untouched [OF assms(1,4)])+
  then show ?thesis
    using assms(3) by (simp add: factor_ok_def power2_eq_square)
qed

lemma visit_pixel_update:
  assumes "0 \<le> x \<and> x < cols img \<and> 0 \<le> y \<and> y < rows img \<and>
    nat (y * cols img + x) < length (distanceFromClusterCentre st) \<and>
    nat (y * cols img + x) < length (pixelCluster st)"
  shows "if computeDistance st c (x, y) (at_Vec3b img y x)
              < distanceFromClusterCentre st ! nat (y * cols img + x)
         then distanceFromClusterCentre (visit_pixel img videoMode c y st x)
                ! nat (y * cols img + x)
                = computeDistance st c (x, y) (at_Vec3b img y x) \<and>
              pixelCluster (visit_pixel img videoMode c y st x) ! nat (y * cols img + x) = int c
         else distanceFromClusterCentre (visit_pixel img videoMode c y st x)
                = distanceFromClusterCentre st \<and>
              pixelCluster (visit_pixel img videoMode c y st x) = pixelCluster st"
proof -
  let ?i = "nat (y * cols img + x)"
  let ?d = "computeDistance st c (x, y) (at_Vec3b img y x)"
  let ?st1 = "if is_add_mode videoMode
              then st\<lparr>pixelReachedByClusters := (pixelReachedByClusters st)[?i := 0]\<rparr>
              else st"
  have v: "visit_pixel img videoMode c y st x =
      (if ?d < distanceFromClusterCentre ?st1 ! ?i
       then ?st1\<lparr>distanceFromClusterCentre := (distanceFromClusterCentre ?st1)[?i := ?d],
                   pixelCluster := (pixelCluster ?st1)[?i := int c]\<rparr>
       else ?st1)"
    using assms unfolding visit_pixel_def Let_def by simp
  have s1: "distanceFromClusterCentre ?st1 = distanceFromClusterCentre st"
    "pixelCluster ?st1 = pixelCluster st"
    by simp_all
  show ?thesis
  proof (cases "?d < distanceFromClusterCentre st ! ?i")
    case True
    then have "visit_pixel img videoMode c y st x =
        ?st1\<lparr>distanceFromClusterCentre := (distanceFromClusterCentre ?st1)[?i := ?d],
                 pixelCluster := (pixelCluster ?st1)[?i := int c]\<rparr>"
      unfolding v s1 by simp
    then show ?thesis using True assms by (simp add: s1)
  next
    case False
    then have "visit_pixel img videoMode c y st x = ?st1"
      unfolding v s1 by simp
    then show ?thesis using False by (simp add: s1)
  qed
qed

text \<open>
  C7. \<^verbatim>\<open>computeDistance\<close> returns the sum of the three squared colour differences plus
  \<open>spatialDistanceWeight\<^sup>2 / samplingStep\<^sup>2\<close> times the sum of the two squared
  coordinate differences, in every state in which \<^verbatim>\<open>distanceFactor\<close> is the value of line
  156; a reseed with a step \<open>S > 0\<close> whose square does not wrap establishes that, and no
  step of the loop changes the three members. In the assignment step the Distance Map
  entry and the Assignment Map entry of an in-bounds pixel become this distance and this
  centre exactly when the distance is strictly below the entry; otherwise both maps
  stay as they are.
\<close>

theorem combined_distance_and_update:
  "(factor_ok st \<longrightarrow>
      computeDistance st c (x, y) col =
        (clusterCentres st ! (5 * c) - real_of_int (val0 col))\<^sup>2 +
        (clusterCentres st ! (5 * c + 1) - real_of_int (val1 col))\<^sup>2 +
        (clusterCentres st ! (5 * c + 2) - real_of_int (val2 col))\<^sup>2 +
        (real (spatialDistanceWeight st))\<^sup>2 / (real (samplingStep st))\<^sup>2 *
          ((clusterCentres st ! (5 * c + 3) - real_of_int x)\<^sup>2 +
           (clusterCentres st ! (5 * c + 4) - real_of_int y)\<^sup>2)) \<and>
   (must_reseed videoMode keyFramesRatio connectedFrames earlier = Inr True \<and> 0 < S \<and>
    S * S < 2 ^ 32 \<and>
    initializeSLICData img S w thr videoMode keyFramesRatio randomGen connectedFrames earlier
      = Some (Inr st)
    \<longrightarrow> factor_ok st \<and> spatialDistanceWeight st = w \<and> samplingStep st = S) \<and>
   (loop_body schedule contourMoments img S iterationNumber thr SLICMode videoMode (go, st)
      = Inr (go', st')
    \<longrightarrow> factor_ok st' = factor_ok st) \<and>
   factor_ok (visit_pixel img videoMode c y st x) = factor_ok st \<and>
   (0 \<le> x \<and> x < cols img \<and> 0 \<le> y \<and> y < rows img \<and>
    nat (y * cols img + x) < length (distanceFromClusterCentre st) \<and>
    nat (y * cols img + x) < length (pixelCluster st)
    \<longrightarrow> (if computeDistance st c (x, y) (at_Vec3b img y x)
              < distanceFromClusterCentre st ! nat (y * cols img + x)
         then distanceFromClusterCentre (visit_pixel img videoMode c y st x)
                ! nat (y * cols img + x)
                = computeDistance st c (x, y) (at_Vec3b img y x) \<and>
              pixelCluster (visit_pixel img videoMode c y st x) ! nat (y * cols img + x) = int c
         else distanceFromClusterCentre (visit_pixel img videoMode c y st x)
                = distanceFromClusterCentre st \<and>
              pixelCluster (visit_pixel img videoMode c y st x) = pixelCluster st))"
proof (intro conjI impI)
  assume "factor_ok st"
  then have "distanceFactor st
      = (real (spatialDistanceWeight st))\<^sup>2 / (real (samplingStep st))\<^sup>2"
    by (simp only: factor_ok_def)
  then show "computeDistance st c (x, y) col =
        (clusterCentres st ! (5 * c) - real_of_int (val0 col))\<^sup>2 +
        (clusterCentres st ! (5 * c + 1) - real_of_int (val1 col))\<^sup>2 +
        (clusterCentres st ! (5 * c + 2) - real_of_int (val2 col))\<^sup>2 +
        (real (spatialDistanceWeight st))\<^sup>2 / (real (samplingStep st))\<^sup>2 *
          ((clusterCentres st ! (5 * c + 3) - real_of_int x)\<^sup>2 +
           (clusterCentres st ! (5 * c + 4) - real_of_int y)\<^sup>2)"
    by (simp only: computeDistance_eq)
next
  assume a: "must_reseed videoMode keyFramesRatio connectedFrames earlier = Inr True \<and> 0 < S \<and>
    S * S < 2 ^ 32 \<and>
    initializeSLICData img S w thr videoMode keyFramesRatio randomGen connectedFrames earlier
      = Some (Inr st)"
  then have "factor_ok st \<and> spatialDistanceWeight st = w \<and> samplingStep st = S"
    using reseed_factor_ok by blast
  then show "factor_ok st" "spatialDistanceWeight st = w" "samplingStep st = S" by simp_all
next
  assume "loop_body schedule contourMoments img S iterationNumber thr SLICMode videoMode (go, st)
      = Inr (go', st')"
  from loop_body_settings [OF this] have "settings st' = settings st" by simp
  then show "factor_ok st' = factor_ok st" by (rule factor_ok_settings)
next
  show "factor_ok (visit_pixel img videoMode c y st x) = factor_ok st"
    by (rule factor_ok_settings) (rule visit_pixel_settings)
next
  assume "0 \<le> x \<and> x < cols img \<and> 0 \<le> y \<and> y < rows img \<and>
    nat (y * cols img + x) < length (distanceFromClusterCentre st) \<and>
    nat (y * cols img + x) < length (pixelCluster st)"
  then show "if computeDistance st c (x, y) (at_Vec3b img y x)
              < distanceFromClusterCentre st ! nat (y * cols img + x)
         then distanceFromClusterCentre (visit_pixel img videoMode c y st x)
                ! nat (y * cols img + x)
                = computeDistance st c (x, y) (at_Vec3b img y x) \<and>
              pixelCluster (visit_pixel img videoMode c y st x) ! nat (y * cols img + x) = int c
         else distanceFromClusterCentre (visit_pixel img videoMode c y st x)
                = distanceFromClusterCentre st \<and>
              pixelCluster (visit_pixel img videoMode c y st x) = pixelCluster st"
    by (rule visit_pixel_update)
qed

subsection \<open>A concrete first pass on a 3x3 image\<close>

lemma seeded_3x3_init:
  "initializeSLICData gray_3x3 2 1 0 INDEPENDENT 1 no_noise False fresh_SLIC
     = Some (Inr seeded_3x3)"
  by code_simp

lemma seeded_3x3_first_pass:
  "\<exists>st'. loop_body serial no_contours gray_3x3 2 5 0 FIXED_ITERATIONS INDEPENDENT
            (False, seeded_3x3) = Inr (True, st')"
proof -
  have "(case loop_body serial no_contours gray_3x3 2 5 0 FIXED_ITERATIONS INDEPENDENT
               (False, seeded_3x3) of Inl e \<Rightarrow> False | Inr gs \<Rightarrow> fst gs) = True"
    by code_simp
  then show ?thesis
    by (cases "loop_body serial no_contours gray_3x3 2 5 0 FIXED_ITERATIONS INDEPENDENT
                 (False, seeded_3x3)") (auto simp: prod_eq_iff)
qed

theorem combined_distance_and_update_witness:
  "factor_ok seeded_3x3 \<and>
   computeDistance seeded_3x3 0 (2, 1) (128, 128, 128) = 1 / 4 \<and>
   distanceFromClusterCentre seeded_3x3 ! 5 = DBL_MAX \<and>
   distanceFromClusterCentre (visit_pixel gray_3x3 INDEPENDENT 0 1 seeded_3x3 2) ! 5 = 1 / 4 \<and>
   pixelCluster (visit_pixel gray_3x3 INDEPENDENT 0 1 seeded_3x3 2) ! 5 = 0 \<and>
   (\<exists>st'. loop_body serial no_contours gray_3x3 2 5 0 FIXED_ITERATIONS INDEPENDENT
            (False, seeded_3x3) = Inr (True, st') \<and> factor_ok st')"
proof -
  obtain st' where body: "loop_body serial no_contours gray_3x3 2 5 0 FIXED_ITERATIONS
      INDEPENDENT (False, seeded_3x3) = Inr (True, st')"
    using seeded_3x3_first_pass by blast
  have reseed: "must_reseed INDEPENDENT 1 False fresh_SLIC = Inr True"
    by (simp add: must_reseed_def)
  have step: "(0 :: nat) < 2 \<and> (2 :: nat) * 2 < 2 ^ 32" by simp
  have inside: "(0 :: int) \<le> 2 \<and> 2 < cols gray_3x3 \<and> (0 :: int) \<le> 1 \<and> 1 < rows gray_3x3 \<and>
      nat (1 * cols gray_3x3 + 2) < length (distanceFromClusterCentre seeded_3x3) \<and>
      nat (1 * cols gray_3x3 + 2) < length (pixelCluster seeded_3x3)"
    by (simp add: gray_3x3_def seeded_3x3_def)
  have colour: "at_Vec3b gray_3x3 1 2 = (128, 128, 128)" "nat (1 * cols gray_3x3 + 2) = 5"
    by (simp_all add: gray_3x3_def)
  have d: "computeDistance seeded_3x3 0 (2, 1) (128, 128, 128) = 1 / 4"
    by (simp add: computeDistance_def seeded_3x3_def val0_def val1_def val2_def)
  have far: "distanceFromClusterCentre seeded_3x3 ! 5 = DBL_MAX"
    by (simp add: seeded_3x3_def numeral_eq_Suc)
  have less: "(1 / 4 :: real) < DBL_MAX" by (simp add: DBL_MAX_def)
  note inst = combined_distance_and_update
    [where st = seeded_3x3 and c = 0 and x = 2 and y = 1 and videoMode = INDEPENDENT
       and keyFramesRatio = 1 and connectedFrames = False and earlier = fresh_SLIC and S = 2
       and img = gray_3x3 and w = 1 and thr = 0 and randomGen = no_noise
       and schedule = serial and contourMoments = no_contours and iterationNumber = 5
       and SLICMode = FIXED_ITERATIONS and go = False and go' = True and st' = st'
       and col = "(128, 128, 128)"]
  from inst reseed step seeded_3x3_init body inside
  have ok: "factor_ok seeded_3x3" and ok': "factor_ok st'"
    and upd: "if computeDistance seeded_3x3 0 (2, 1) (at_Vec3b gray_3x3 1 2)
              < distanceFromClusterCentre seeded_3x3 ! nat (1 * cols gray_3x3 + 2)
         then distanceFromClusterCentre (visit_pixel gray_3x3 INDEPENDENT 0 1 seeded_3x3 2)
                ! nat (1 * cols gray_3x3 + 2)
                = computeDistance seeded_3x3 0 (2, 1) (at_Vec3b gray_3x3 1 2) \<and>
              pixelCluster (visit_pixel gray_3x3 INDEPENDENT 0 1 seeded_3x3 2)
                ! nat (1 * cols gray_3x3 + 2) = int 0
         else distanceFromClusterCentre (visit_pixel gray_3x3 INDEPENDENT 0 1 seeded_3x3 2)
                = distanceFromClusterCentre seeded_3x3 \<and>
              pixelCluster (visit_pixel gray_3x3 INDEPENDENT 0 1 seeded_3x3 2)
                = pixelCluster seeded_3x3"
    by blast+
  from upd have "distanceFromClusterCentre (visit_pixel gray_3x3 INDEPENDENT 0 1 seeded_3x3 2) ! 5
      = 1 / 4 \<and> pixelCluster (visit_pixel gray_3x3 INDEPENDENT 0 1 seeded_3x3 2) ! 5 = 0"
    unfolding colour d far using less by simp
  then show ?thesis using ok ok' d far body by blast
qed

subsection \<open>Orphan recovery and the end of the loop\<close>

lemma spawn_centre_keeps:
  "iterationIndex (spawn_centre st mu) = iterationIndex st"
  "totalResidualError (spawn_centre st mu) = totalResidualError st"
  "pixelCluster (spawn_centre st mu) = pixelCluster st"
  "clustersNumber st \<le> clustersNumber (spawn_centre st mu)"
  by (cases mu; simp add: spawn_centre_def)+

lemma orphanRecovery_keeps:
  "iterationIndex (orphanRecovery contourMoments img st) = iterationIndex st"
  "totalResidualError (orphanRecovery contourMoments img st) = totalResidualError st"
  "pixelCluster (orphanRecovery contourMoments img st) = pixelCluster st"
  unfolding orphanRecovery_def by (rule foldl_keeps, rule spawn_centre_keeps)+

lemma orphanRecovery_grows:
  "clustersNumber st \<le> clustersNumber (orphanRecovery contourMoments img st)"
proof -
  have "clustersNumber st \<le> clustersNumber (foldl spawn_centre st mus)" for mus
  proof (induction mus arbitrary: st)
    case Nil
    show ?case by simp
  next
    case (Cons mu mus)
    have "clustersNumber st \<le> clustersNumber (spawn_centre st mu)"
      by (rule spawn_centre_keeps)
    also have "\<dots> \<le> clustersNumber (foldl spawn_centre (spawn_centre st mu) mus)"
      by (rule Cons.IH)
    finally show ?case by simp
  qed
  then show ?thesis by (simp add: orphanRecovery_def)
qed

lemma blob_condition_stops:
  assumes "blob_condition videoMode SLICMode iterationNumber thr st2"
    and "iterationIndex st' = iterationIndex st2 + 1"
    and "totalResidualError st' = totalResidualError st2"
  shows "\<not> loop_continues SLICMode iterationNumber thr (go, st')"
proof (cases SLICMode)
  case ERROR_THRESHOLD
  then have "totalResidualError st2 < thr"
    using assms(1) by (simp add: blob_condition_def)
  then show ?thesis
    using ERROR_THRESHOLD assms(3) by (simp add: loop_continues_def)
next
  case FIXED_ITERATIONS
  then have "unsigned_pred iterationNumber \<le> iterationIndex st2"
    using assms(1) by (simp add: blob_condition_def)
  then have "\<not> iterationIndex st2 + 1 < iterationNumber"
    by (simp add: unsigned_pred_def split: if_splits)
  then show ?thesis
    using FIXED_ITERATIONS assms(2) by (simp add: loop_continues_def)
qed

text \<open>
  C4, as the code has it. In a pass of the loop, after the assignment step, the update
  step and the residual error, Orphan Recovery runs exactly when \<open>blob_condition\<close> holds:
  an \<^verbatim>\<open>ADD_SUPERPIXELS\<close> mode, a pixel not reached, and the residual error strictly
  below the threshold (\<^verbatim>\<open>ERROR_THRESHOLD\<close>) or the iteration index at least
  \<^verbatim>\<open>iterationNumber - 1\<close> (\<^verbatim>\<open>FIXED_ITERATIONS\<close>). Otherwise the pass only sets
  \<^verbatim>\<open>go\<close> and increments the iteration index: the object is the one the update left.
  In a pass with Orphan Recovery the flag \<^verbatim>\<open>go\<close> is left as it was, the termination
  test of the \<^verbatim>\<open>do ... while\<close> is false afterwards whatever \<^verbatim>\<open>go\<close> holds, and the
  loop returns the state of that very pass: whatever Orphan Recovery spawned, no further
  assignment or update runs in this call.
\<close>

theorem orphan_recovery_ends_the_loop:
  assumes "assign_update schedule img S videoMode st = Inr st2"
  shows "if blob_condition videoMode SLICMode iterationNumber thr st2
         then loop_body schedule contourMoments img S iterationNumber thr SLICMode videoMode
                (go, st)
                = Inr (go, (orphanRecovery contourMoments img st2)
                             \<lparr>iterationIndex := iterationIndex st2 + 1\<rparr>) \<and>
              is_add_mode videoMode \<and> 255 \<in> set (pixelReachedByClusters st2) \<and>
              (SLICMode = ERROR_THRESHOLD \<and> totalResidualError st2 < thr \<or>
               SLICMode = FIXED_ITERATIONS \<and> unsigned_pred iterationNumber \<le> iterationIndex st2) \<and>
              \<not> loop_continues SLICMode iterationNumber thr
                  (True, (orphanRecovery contourMoments img st2)
                           \<lparr>iterationIndex := iterationIndex st2 + 1\<rparr>) \<and>
              do_while
                (loop_body schedule contourMoments img S iterationNumber thr SLICMode videoMode)
                (loop_continues SLICMode iterationNumber thr) (go, st)
                = Some (Inr ((orphanRecovery contourMoments img st2)
                               \<lparr>iterationIndex := iterationIndex st2 + 1\<rparr>))
         else loop_body schedule contourMoments img S iterationNumber thr SLICMode videoMode
                (go, st)
                = Inr (True, st2\<lparr>iterationIndex := iterationIndex st2 + 1\<rparr>)"
proof (cases "blob_condition videoMode SLICMode iterationNumber thr st2")
  case True
  let ?st' = "(orphanRecovery contourMoments img st2)\<lparr>iterationIndex := iterationIndex st2 + 1\<rparr>"
  have mode: "is_add_mode videoMode" "255 \<in> set (pixelReachedByClusters st2)"
    "SLICMode = ERROR_THRESHOLD \<and> totalResidualError st2 < thr \<or>
     SLICMode = FIXED_ITERATIONS \<and> unsigned_pred iterationNumber \<le> iterationIndex st2"
    using True by (auto simp: blob_condition_def)
  have body: "loop_body schedule contourMoments img S iterationNumber thr SLICMode videoMode
      (go, st) = Inr (go, ?st')"
    using assms True by (simp add: loop_body_def orphanRecovery_keeps)
  have stop: "\<not> loop_continues SLICMode iterationNumber thr (g, ?st')" for g
    by (rule blob_condition_stops [OF True]) (simp_all add: orphanRecovery_keeps)
  have "do_while
      (loop_body schedule contourMoments img S iterationNumber thr SLICMode videoMode)
      (loop_continues SLICMode iterationNumber thr) (go, st) = Some (Inr ?st')"
    using stop [of go] by (subst do_while.simps) (simp add: body)
  with mode body stop [of True] True show ?thesis by simp
next
  case False
  then show ?thesis using assms by (simp add: loop_body_def)
qed

lemma corner_init:
  "initializeSLICData gray_8x8 1 1 0 ADD_SUPERPIXELS 1 no_noise True corner_SLIC
     = Some (Inr (corner_entry\<lparr>iterationIndex := 1\<rparr>))"
  by (simp add: initializeSLICData_def must_reseed_def finish_init_def is_add_mode_def
      is_key_mode_def is_noise_mode_def corner_SLIC_def corner_entry_def Let_def)

lemma corner_pass:
  "assign_update serial gray_8x8 1 ADD_SUPERPIXELS corner_entry = Inr corner_updated"
  by code_simp

lemma corner_blob:
  "blob_condition ADD_SUPERPIXELS FIXED_ITERATIONS 1 0 corner_updated"
  by (simp add: blob_condition_def is_add_mode_def unsigned_pred_def corner_updated_def
      corner_entry_def corner_SLIC_def)

lemma corner_recovery:
  "orphanRecovery square_contour gray_8x8 corner_updated =
     corner_updated\<lparr>clusterCentres := [128, 128, 128, 1, 1, 0, 0, 0, 7 / 2, 7 / 2],
                    previousClusterCentres := [128, 128, 128, 1, 1, 0, 0, 0, 7 / 2, 7 / 2],
                    pixelsOfSameCluster := [9, 0], residualError := [0, 0],
                    clustersNumber := 2\<rparr>"
  by (simp add: orphanRecovery_def square_contour_def spawn_centre_def corner_updated_def
      corner_entry_def corner_SLIC_def)

theorem orphan_recovery_ends_the_loop_witness:
  "assign_update serial gray_8x8 1 ADD_SUPERPIXELS corner_entry = Inr corner_updated \<and>
   blob_condition ADD_SUPERPIXELS FIXED_ITERATIONS 1 0 corner_updated \<and>
   clustersNumber corner_updated = 1 \<and>
   clustersNumber (orphanRecovery square_contour gray_8x8 corner_updated) = 2 \<and>
   do_while
     (loop_body serial square_contour gray_8x8 1 1 0 FIXED_ITERATIONS ADD_SUPERPIXELS)
     (loop_continues FIXED_ITERATIONS 1 0) (False, corner_entry)
     = Some (Inr ((orphanRecovery square_contour gray_8x8 corner_updated)
                    \<lparr>iterationIndex := iterationIndex corner_updated + 1\<rparr>)) \<and>
   (\<exists>st2. assign_update serial gray_3x3 2 INDEPENDENT seeded_3x3 = Inr st2 \<and>
          \<not> blob_condition INDEPENDENT FIXED_ITERATIONS 5 0 st2 \<and>
          loop_body serial no_contours gray_3x3 2 5 0 FIXED_ITERATIONS INDEPENDENT
            (False, seeded_3x3)
            = Inr (True, st2\<lparr>iterationIndex := iterationIndex st2 + 1\<rparr>))"
proof -
  have n: "clustersNumber corner_updated = 1"
    "clustersNumber (orphanRecovery square_contour gray_8x8 corner_updated) = 2"
    by (simp_all add: corner_recovery) (simp add: corner_updated_def corner_entry_def corner_SLIC_def)
  from orphan_recovery_ends_the_loop [OF corner_pass, of FIXED_ITERATIONS 1 0 square_contour False]
    corner_blob
  have last: "do_while
     (loop_body serial square_contour gray_8x8 1 1 0 FIXED_ITERATIONS ADD_SUPERPIXELS)
     (loop_continues FIXED_ITERATIONS 1 0) (False, corner_entry)
     = Some (Inr ((orphanRecovery square_contour gray_8x8 corner_updated)
                    \<lparr>iterationIndex := iterationIndex corner_updated + 1\<rparr>))"
    by simp
  obtain st2 where a: "assign_update serial gray_3x3 2 INDEPENDENT seeded_3x3 = Inr st2"
    using seeded_3x3_first_pass
    by (cases "assign_update serial gray_3x3 2 INDEPENDENT seeded_3x3")
       (auto simp: loop_body_def)
  have b: "\<not> blob_condition INDEPENDENT FIXED_ITERATIONS 5 0 st2"
    by (simp add: blob_condition_def is_add_mode_def)
  from orphan_recovery_ends_the_loop [OF a, of FIXED_ITERATIONS 5 0 no_contours False] b
  have "loop_body serial no_contours gray_3x3 2 5 0 FIXED_ITERATIONS INDEPENDENT
          (False, seeded_3x3) = Inr (True, st2\<lparr>iterationIndex := iterationIndex st2 + 1\<rparr>)"
    by simp
  with corner_pass corner_blob n last a b show ?thesis by blast
qed

text \<open>
  The claim C4 says that a pass in which Orphan Recovery spawns a centre is followed by
  exactly one further pass. On the 8x8 frame, with \<^verbatim>\<open>FIXED_ITERATIONS\<close> and
  \<^verbatim>\<open>iterationNumber = 1\<close>, the only pass leaves 55 pixels unreached, Orphan Recovery
  appends a second centre at \<open>(7/2, 7/2)\<close>, and \<^verbatim>\<open>createSuperpixels\<close> returns after
  that pass: the iteration index is 1, the new centre has no pixel and the 55 pixels are
  still unassigned.
\<close>

theorem no_pass_after_orphan_recovery:
  "map_option
     (map_sum id (\<lambda>st. (iterationIndex st, clustersNumber st, pixelsOfSameCluster st,
                         clusterCentres st, pixelCluster st)))
     (createSuperpixels serial square_contour gray_8x8 1 1 1 0 FIXED_ITERATIONS ADD_SUPERPIXELS 1
        no_noise True corner_SLIC)
   = Some (Inr (1, 2, [9, 0], [128, 128, 128, 1, 1, 0, 0, 0, 7 / 2, 7 / 2],
                [0, 0, 0] @ replicate 5 (- 1) @ [0, 0, 0] @ replicate 5 (- 1) @ [0, 0, 0] @
                replicate 45 (- 1)))"
proof -
  let ?body = "loop_body serial square_contour gray_8x8 1 1 0 FIXED_ITERATIONS ADD_SUPERPIXELS"
  let ?st' = "(orphanRecovery square_contour gray_8x8 corner_updated)\<lparr>iterationIndex := 1\<rparr>"
  have index: "iterationIndex corner_updated = 0"
    by (simp add: corner_updated_def corner_entry_def)
  have body: "?body (False, corner_entry) = Inr (False, ?st')"
    unfolding loop_body_def snd_conv fst_conv corner_pass bindF_Inr
    using corner_blob by (simp add: orphanRecovery_keeps index)
  have stop: "\<not> loop_continues FIXED_ITERATIONS 1 0 (False, ?st')"
    by (simp add: loop_continues_def)
  have loop: "do_while ?body (loop_continues FIXED_ITERATIONS 1 0) (False, corner_entry)
      = Some (Inr ?st')"
    by (subst do_while.simps, unfold body) (use stop in simp)
  have entry: "corner_entry\<lparr>iterationIndex := 1, iterationIndex := 0\<rparr> = corner_entry"
    by (simp add: corner_entry_def)
  have "createSuperpixels serial square_contour gray_8x8 1 1 1 0 FIXED_ITERATIONS ADD_SUPERPIXELS 1
        no_noise True corner_SLIC = Some (Inr (?st'\<lparr>framesNumber := framesNumber ?st' + 1\<rparr>))"
    unfolding createSuperpixels_def corner_init option.case sum.case entry loop by simp
  then show ?thesis
    by (simp add: corner_recovery) (simp add: corner_updated_def corner_entry_def corner_SLIC_def)
qed


subsection \<open>Two schedules of the assignment step\<close>

text \<open>
  C1. The claim is that two runs of \<^verbatim>\<open>createSuperpixels\<close> on the same input give the
  same Assignment Map and Centre Store, the result of an assignment step not depending
  on the order in which the centres are processed. The bodies of the
  \<^verbatim>\<open>tbb::parallel_for\<close> of line 317 all write the per-pixel arrays, and a centre only
  takes a pixel on a strictly lower distance. On a uniform 3x5 image with step 2 the two
  centres sit at \<open>(1, 1)\<close> and \<open>(3, 1)\<close> and the pixels of column 2 are equally far from
  both: run in the order 0, 1 the column goes to centre 0, in the order 1, 0 to centre 1,
  and the recomputed centres differ.
\<close>

theorem assignment_depends_on_schedule:
  "map_option (map_sum id (\<lambda>st. (pixelCluster st, clusterCentres st)))
     (createSuperpixels serial no_contours gray_3x5 2 1 1 0 FIXED_ITERATIONS INDEPENDENT 1
        no_noise False fresh_SLIC)
   = Some (Inr ([0, 0, 0, 1, 1,
                 0, 0, 0, 1, 1,
                 0, 0, 0, 1, 1],
                [128, 128, 128, 1, 1, 128, 128, 128, 7 / 2, 1])) \<and>
   map_option (map_sum id (\<lambda>st. (pixelCluster st, clusterCentres st)))
     (createSuperpixels reversed no_contours gray_3x5 2 1 1 0 FIXED_ITERATIONS INDEPENDENT 1
        no_noise False fresh_SLIC)
   = Some (Inr ([0, 0, 1, 1, 1,
                 0, 0, 1, 1, 1,
                 0, 0, 1, 1, 1],
                [128, 128, 128, 1 / 2, 1, 128, 128, 128, 3, 1]))"
  by code_simp

subsection \<open>The Assignment Map holds the sentinel or a cluster index\<close>

lemma foldl_inv:
  assumes "\<And>s x. x \<in> set xs \<Longrightarrow> P s \<Longrightarrow> P (f s x)" and "P s"
  shows "P (foldl f s xs)"
  using assms by (induction xs arbitrary: s) simp_all

lemma labels_valid_labelling:
  "labelling st' = labelling st \<Longrightarrow> labels_valid st' = labels_valid st"
  by (simp add: labels_valid_def labelling_def)

lemma valid_label_mono: "valid_label n v \<Longrightarrow> n \<le> m \<Longrightarrow> valid_label m v"
  by (auto simp: valid_label_def)

lemma valid_update:
  assumes "\<forall>v \<in> set xs. valid_label n v" and "valid_label n w"
  shows "\<forall>v \<in> set (xs[i := w]). valid_label n v"
  using assms set_update_subset_insert [of xs i w] by auto

lemma visit_pixel_valid:
  assumes "labels_valid st \<and> c < clustersNumber st"
  shows "labels_valid (visit_pixel img videoMode c y st x) \<and>
         c < clustersNumber (visit_pixel img videoMode c y st x)"
proof -
  have "valid_label (clustersNumber st) (int c)"
    using assms by (simp add: valid_label_def)
  with assms have "\<forall>v \<in> set ((pixelCluster st)[i := int c]). valid_label (clustersNumber st) v"
    for i
    by (intro valid_update) (simp_all add: labels_valid_def)
  then show ?thesis
    using assms by (simp add: visit_pixel_def Let_def labels_valid_def)
qed

lemma scan_window_valid:
  assumes "labels_valid st \<and> c < clustersNumber st"
  shows "labels_valid (scan_window img S videoMode st c) \<and>
         c < clustersNumber (scan_window img S videoMode st c)"
proof -
  have row: "labels_valid (scan_row img S videoMode c s y) \<and>
             c < clustersNumber (scan_row img S videoMode c s y)"
    if "labels_valid s \<and> c < clustersNumber s" for s y
    unfolding scan_row_def
    by (rule foldl_inv [where P = "\<lambda>s. labels_valid s \<and> c < clustersNumber s"])
       (simp_all add: visit_pixel_valid that)
  show ?thesis
    unfolding scan_window_def
    by (rule foldl_inv [where P = "\<lambda>s. labels_valid s \<and> c < clustersNumber s"])
       (simp_all add: row assms)
qed

lemma scan_window_count: "clustersNumber (scan_window img S videoMode st c) = clustersNumber st"
proof -
  have row: "clustersNumber (scan_row img S videoMode c s y) = clustersNumber s" for s y
    unfolding scan_row_def by (rule foldl_keeps) (rule visit_pixel_centres)
  show ?thesis
    unfolding scan_window_def by (rule foldl_keeps) (rule row)
qed

lemma assignPixels_valid:
  assumes "labels_valid st" and "set order \<subseteq> {..<clustersNumber st}"
  shows "labels_valid (assignPixels order img S videoMode st)"
    and "clustersNumber (assignPixels order img S videoMode st) = clustersNumber st"
proof -
  let ?n = "clustersNumber st"
  let ?st0 = "st\<lparr>distanceFromClusterCentre := replicate (pixelsNumber st) DBL_MAX\<rparr>"
  have "labels_valid (foldl (scan_window img S videoMode) ?st0 order) \<and>
        clustersNumber (foldl (scan_window img S videoMode) ?st0 order) = ?n"
  proof (rule foldl_inv [where P = "\<lambda>s. labels_valid s \<and> clustersNumber s = ?n"])
    fix s c assume "c \<in> set order" and s: "labels_valid s \<and> clustersNumber s = ?n"
    then have "labels_valid s \<and> c < clustersNumber s" using assms(2) by auto
    from scan_window_valid [OF this] s
    show "labels_valid (scan_window img S videoMode s c) \<and>
          clustersNumber (scan_window img S videoMode s c) = ?n"
      by (simp add: scan_window_count)
  next
    show "labels_valid ?st0 \<and> clustersNumber ?st0 = ?n"
      using assms(1) by (simp add: labels_valid_def)
  qed
  then show "labels_valid (assignPixels order img S videoMode st)"
    and "clustersNumber (assignPixels order img S videoMode st) = clustersNumber st"
    by (simp_all add: assignPixels_def)
qed

lemma accumulate_pixel_labelling: "labelling (accumulate_pixel img y st x) = labelling st"
  by (simp add: accumulate_pixel_def labelling_def Let_def)

lemma accumulate_labelling: "labelling (accumulate img st) = labelling st"
  unfolding accumulate_def accumulate_row_def
  by (intro foldl_keeps accumulate_pixel_labelling)

lemma normalizeCentres_labelling:
  assumes "normalizeCentres st = Inr st'"
  shows "labelling st' = labelling st"
proof -
  obtain st2 where "normalizeCentres st = Inr st2"
    "normalized_from [0..<clustersNumber st] st st2"
    using normalizeCentres_from by blast
  with assms show ?thesis by (simp add: normalized_from_def labelling_def)
qed

lemma updateCentres_labelling:
  assumes "updateCentres img st = Inr st'"
  shows "labelling st' = labelling st"
  using normalizeCentres_labelling [OF assms [unfolded updateCentres_def]]
  by (simp add: accumulate_labelling) (simp add: labelling_def)

lemma computeResidualError_labelling:
  assumes "computeResidualError st = Inr st'"
  shows "labelling st' = labelling st"
proof (cases "iterationIndex st = 0")
  case True
  then show ?thesis using assms by (auto simp: computeResidualError_def labelling_def)
next
  case False
  have "labelling (foldl residual_centre st cs) = labelling st" for cs
    by (rule foldl_keeps) (simp add: residual_centre_def labelling_def Let_def)
  then show ?thesis
    using assms False
    by (auto simp: computeResidualError_def Let_def labelling_def div_double_def bindF_def
        split: if_splits)
qed

lemma assign_update_valid:
  assumes "labels_valid st" and "schedule_ok schedule"
    and "assign_update schedule img S videoMode st = Inr st2"
  shows "labels_valid st2"
proof -
  let ?st0 = "assignPixels (schedule (clustersNumber st)) img S videoMode st"
  have order: "set (schedule (clustersNumber st)) \<subseteq> {..<clustersNumber st}"
    using assms(2) by (simp add: schedule_ok_def)
  from assms(3) obtain st1 where 1: "updateCentres img ?st0 = Inr st1"
    by (cases "updateCentres img ?st0") (simp_all add: assign_update_def)
  from assms(3) 1 have 2: "computeResidualError st1 = Inr st2"
    by (simp add: assign_update_def)
  have "labels_valid ?st0" by (rule assignPixels_valid [OF assms(1) order])
  then have "labels_valid st1"
    using labels_valid_labelling [OF updateCentres_labelling [OF 1]] by simp
  then show ?thesis
    using labels_valid_labelling [OF computeResidualError_labelling [OF 2]] by simp
qed

lemma orphanRecovery_valid:
  assumes "labels_valid st"
  shows "labels_valid (orphanRecovery contourMoments img st)"
  using assms orphanRecovery_grows [of st contourMoments img]
  by (auto simp: labels_valid_def orphanRecovery_keeps intro: valid_label_mono)

lemma loop_body_valid:
  assumes "labels_valid (snd gs)" and "schedule_ok schedule"
    and "loop_body schedule contourMoments img S iterationNumber thr SLICMode videoMode gs
           = Inr gs'"
  shows "labels_valid (snd gs')"
proof -
  from assms(3) obtain st2 where 1: "assign_update schedule img S videoMode (snd gs) = Inr st2"
    by (cases "assign_update schedule img S videoMode (snd gs)") (simp_all add: loop_body_def)
  have v2: "labels_valid st2" by (rule assign_update_valid [OF assms(1,2) 1])
  have v3: "labels_valid (orphanRecovery contourMoments img st2)"
    by (rule orphanRecovery_valid [OF v2])
  show ?thesis
    using assms(3) 1 v2 v3
    by (auto simp: loop_body_def Let_def labels_valid_def split: if_splits)
qed

lemma do_while_inv:
  assumes run: "do_while body continues gs = Some (Inr st')"
    and step: "\<And>gs gs'. P (snd gs) \<Longrightarrow> body gs = Inr gs' \<Longrightarrow> P (snd gs')"
    and start: "P (snd gs)"
  shows "P st'"
proof -
  define Q where "Q b (c :: bool \<times> SLIC \<Rightarrow> bool) g r \<longleftrightarrow>
      (b = body \<longrightarrow> P (snd g) \<longrightarrow> (case r of Inl e \<Rightarrow> True | Inr s \<Rightarrow> P s))"
    for b c and g :: "bool \<times> SLIC" and r :: "fault + SLIC"
  have "Q body continues gs (Inr st')"
  proof (rule do_while.raw_induct [where P = Q, OF _ run])
    fix f b c and g :: "bool \<times> SLIC" and r :: "fault + SLIC"
    assume IH: "\<And>b c g y. f b c g = Some y \<Longrightarrow> Q b c g y"
      and eq: "(case b g of Inl e \<Rightarrow> Some (Inl e)
                | Inr gs1 \<Rightarrow> if c gs1 then f b c gs1 else Some (Inr (snd gs1))) = Some r"
    show "Q b c g r"
      unfolding Q_def
    proof (intro impI)
      assume b: "b = body" and Pg: "P (snd g)"
      show "case r of Inl e \<Rightarrow> True | Inr s \<Rightarrow> P s"
      proof (cases "b g")
        case (Inl e)
        then show ?thesis using eq by auto
      next
        case (Inr gs1)
        then have P1: "P (snd gs1)" using step [OF Pg] b by simp
        show ?thesis
        proof (cases "c gs1")
          case True
          then have "f b c gs1 = Some r" using eq Inr by simp
          from IH [OF this] show ?thesis using b P1 by (simp add: Q_def)
        next
          case False
          then have "r = Inr (snd gs1)" using eq Inr by simp
          then show ?thesis using P1 by simp
        qed
      qed
    qed
  qed
  then show ?thesis using start by (simp add: Q_def)
qed

lemma initializeSLICData_valid:
  assumes "initializeSLICData img S w thr videoMode keyFramesRatio randomGen connectedFrames st
             = Some (Inr st1)"
    and "labels_valid st \<or> must_reseed videoMode keyFramesRatio connectedFrames st = Inr True"
  shows "labels_valid st1"
proof (cases "must_reseed videoMode keyFramesRatio connectedFrames st")
  case (Inl e)
  then show ?thesis using assms(1) by (simp add: initializeSLICData_def)
next
  case (Inr reseed)
  show ?thesis
  proof (cases reseed)
    case True
    have reseed: "must_reseed videoMode keyFramesRatio connectedFrames st = Inr True"
      using Inr True by simp
    have "pixelCluster st1 = replicate (nat (rows img * cols img)) (- 1)"
      by (rule reseed_untouched [OF reseed assms(1)])
    then show ?thesis by (simp add: labels_valid_def valid_label_def)
  next
    case False
    then have valid: "labels_valid st" using assms(2) Inr by simp
    have "st1 = finish_init videoMode
        (if is_noise_mode videoMode then add_noise randomGen st else st)"
      using assms(1) Inr False by (simp add: initializeSLICData_def)
    then show ?thesis
      using valid by (simp add: labels_valid_def finish_init_def add_noise_def Let_def)
  qed
qed

lemma createSuperpixels_valid:
  assumes "createSuperpixels schedule contourMoments img S w iterationNumber thr SLICMode
             videoMode keyFramesRatio randomGen connectedFrames st = Some (Inr st3)"
    and "labels_valid st \<or> must_reseed videoMode keyFramesRatio connectedFrames st = Inr True"
    and "schedule_ok schedule"
  shows "labels_valid st3"
proof -
  from assms(1) obtain st1 where init: "initializeSLICData img S w thr videoMode keyFramesRatio
      randomGen connectedFrames st = Some (Inr st1)"
    by (auto simp: createSuperpixels_def split: option.splits sum.splits)
  have v1: "labels_valid (st1\<lparr>iterationIndex := 0\<rparr>)"
    using initializeSLICData_valid [OF init assms(2)] by (simp add: labels_valid_def)
  let ?run = "do_while
      (loop_body schedule contourMoments img S iterationNumber thr SLICMode videoMode)
      (loop_continues SLICMode iterationNumber thr) (False, st1\<lparr>iterationIndex := 0\<rparr>)"
  from assms(1) init obtain r where r: "?run = Some r"
    and r3: "(case r of Inl e \<Rightarrow> Inl e
              | Inr st2 \<Rightarrow> Inr (st2\<lparr>framesNumber := Suc (framesNumber st2)\<rparr>)) = Inr st3"
    by (cases ?run) (simp_all add: createSuperpixels_def)
  from r3 obtain st2 where r2: "r = Inr st2"
    and st3: "st3 = st2\<lparr>framesNumber := Suc (framesNumber st2)\<rparr>"
    by (cases r) auto
  have loop: "?run = Some (Inr st2)" using r r2 by simp
  have "labels_valid st2"
    by (rule do_while_inv [OF loop, where P = labels_valid])
       (use v1 assms(3) loop_body_valid in auto)
  then show ?thesis by (simp add: st3 labels_valid_def)
qed

subsection \<open>The labels after enforceConnectivity\<close>

lemma pixel_index_less:
  assumes "in_image img x y"
  shows "pixel_index img x y < nat (rows img * cols img)"
proof -
  from assms have b: "0 \<le> x" "x < cols img" "0 \<le> y" "y \<le> rows img - 1"
    by (simp_all add: in_image_def)
  then have "y * cols img \<le> (rows img - 1) * cols img"
    by (intro mult_right_mono) simp_all
  then have "y * cols img + x < rows img * cols img"
    using b by (simp add: algebra_simps)
  moreover have "0 \<le> y * cols img + x" using b by simp
  ultimately show ?thesis by (simp add: pixel_index_def)
qed

lemma new_labels_ok_update:
  "new_labels_ok n m new \<Longrightarrow> valid_label n v \<Longrightarrow> new_labels_ok n m (new[i := v])"
  unfolding new_labels_ok_def using valid_update [of new n v i] by simp

lemma new_labels_ok_nth:
  "new_labels_ok n m new \<Longrightarrow> i < m \<Longrightarrow> new ! i \<noteq> - 1 \<Longrightarrow> 0 \<le> new ! i \<and> new ! i < int n"
  unfolding new_labels_ok_def valid_label_def by (metis nth_mem)

lemma adjacent_in_row_ok:
  assumes "new_labels_ok n (nat (rows img * cols img)) new" and "0 \<le> adj \<and> adj < int n"
  shows "0 \<le> adjacent_in_row img new tempY xs adj \<and> adjacent_in_row img new tempY xs adj < int n"
  using assms(2)
proof (induction xs)
  case Nil
  then show ?case by simp
next
  case (Cons tempX xs)
  show ?case
  proof (cases "in_image img tempX tempY \<and> new ! pixel_index img tempX tempY \<noteq> - 1")
    case True
    then have "0 \<le> new ! pixel_index img tempX tempY \<and> new ! pixel_index img tempX tempY < int n"
      using new_labels_ok_nth [OF assms(1)] pixel_index_less by blast
    then show ?thesis using True by simp
  next
    case False
    then show ?thesis using Cons by auto
  qed
qed

lemma find_adjacent_ok:
  assumes "new_labels_ok n (nat (rows img * cols img)) new" and "0 \<le> adj \<and> adj < int n"
  shows "0 \<le> find_adjacent img new p adj \<and> find_adjacent img new p adj < int n"
  unfolding find_adjacent_def
  by (rule foldl_inv [where P = "\<lambda>a. 0 \<le> a \<and> a < int n"])
     (simp_all add: adjacent_row_def adjacent_in_row_ok [OF assms(1)] assms(2))

lemma grow_around_ok:
  assumes "valid_label n label" and "new_labels_ok n m (snd sn)"
  shows "new_labels_ok n m (snd (grow_around img pc label p sn))"
proof -
  have px: "new_labels_ok n m (snd (grow_pixel img pc label tempY s tempX))"
    if "new_labels_ok n m (snd s)" for s tempY tempX
    using that assms(1) by (simp add: grow_pixel_def new_labels_ok_update)
  have row: "new_labels_ok n m (snd (grow_row img pc label p s tempY))"
    if "new_labels_ok n m (snd s)" for s tempY
    unfolding grow_row_def
    by (rule foldl_inv [where P = "\<lambda>s. new_labels_ok n m (snd s)"]) (simp_all add: px that)
  show ?thesis
    unfolding grow_around_def
    by (rule foldl_inv [where P = "\<lambda>s. new_labels_ok n m (snd s)"]) (simp_all add: row assms(2))
qed

lemma grow_ok:
  assumes run: "grow img pc label c sn = Some sn'"
    and label: "valid_label n label" and start: "new_labels_ok n m (snd sn)"
  shows "new_labels_ok n m (snd sn')"
proof -
  define Q where "Q (i :: Mat) (p :: int list) l (k :: nat) s s' \<longleftrightarrow>
      (l = label \<longrightarrow> new_labels_ok n m (snd s) \<longrightarrow> new_labels_ok n m (snd s'))"
    for i p l k and s s' :: "Point list \<times> int list"
  have "Q img pc label c sn sn'"
  proof (rule grow.raw_induct [where P = Q, OF _ run])
    fix f i p l k and s s' :: "Point list \<times> int list"
    assume IH: "\<And>i p l k s y. f i p l k s = Some y \<Longrightarrow> Q i p l k s y"
      and eq: "(if k < length (fst s)
                then f i p l (k + 1) (grow_around i p l (fst s ! k) s) else Some s) = Some s'"
    show "Q i p l k s s'"
      unfolding Q_def
    proof (intro impI)
      assume l: "l = label" and ok: "new_labels_ok n m (snd s)"
      show "new_labels_ok n m (snd s')"
      proof (cases "k < length (fst s)")
        case True
        then have "f i p l (k + 1) (grow_around i p l (fst s ! k) s) = Some s'"
          using eq by simp
        from IH [OF this] grow_around_ok [OF label ok] l show ?thesis
          by (simp add: Q_def)
      next
        case False
        then show ?thesis using eq ok by simp
      qed
    qed
  qed
  then show ?thesis using start by (simp add: Q_def)
qed

lemma relabel_ok:
  assumes "new_labels_ok n m new" and "0 \<le> adj \<and> adj < int n"
  shows "new_labels_ok n m (relabel img adj seg new)"
  unfolding relabel_def
  by (rule foldl_inv [where P = "new_labels_ok n m"])
     (use assms in \<open>simp_all add: relabel_pixel_def new_labels_ok_update valid_label_def\<close>)

lemma label_segment_ok:
  assumes pc: "\<forall>v \<in> set pc. valid_label n v" "length pc = nat (rows img * cols img)"
    and inside: "in_image img x y"
    and start: "pass_ok n (nat (rows img * cols img)) an"
    and run: "label_segment img pc q y x an = Some an'"
  shows "pass_ok n (nat (rows img * cols img)) an'"
proof (cases "snd an ! pixel_index img x y = - 1")
  case False
  then show ?thesis using run start by (simp add: label_segment_def)
next
  case True
  let ?m = "nat (rows img * cols img)"
  let ?i = "pixel_index img x y"
  let ?new1 = "(snd an)[?i := pc ! ?i]"
  let ?adj = "find_adjacent img ?new1 (x, y) (fst an)"
  have "?i < length pc" using pixel_index_less [OF inside] pc(2) by simp
  then have label: "valid_label n (pc ! ?i)" using pc(1) by simp
  have new1: "new_labels_ok n ?m ?new1"
    using start label by (simp add: pass_ok_def new_labels_ok_update)
  have adj: "0 \<le> ?adj \<and> ?adj < int n"
    by (rule find_adjacent_ok [OF new1]) (use start in \<open>simp add: pass_ok_def\<close>)
  from run True obtain sn where sn: "grow img pc (pc ! ?i) 0 ([(x, y)], ?new1) = Some sn"
    and an': "an' = (?adj, if length (fst sn) \<le> q div 4
                            then relabel img ?adj (fst sn) (snd sn) else snd sn)"
    by (cases "grow img pc (pc ! ?i) 0 ([(x, y)], ?new1)")
       (auto simp: label_segment_def Let_def)
  have grown: "new_labels_ok n ?m (snd sn)"
    by (rule grow_ok [OF sn label]) (simp add: new1)
  show ?thesis
    unfolding an' pass_ok_def using adj grown relabel_ok [OF grown adj] by simp
qed

lemma for_opt_inv:
  assumes "\<And>a s s'. a \<in> set as \<Longrightarrow> P s \<Longrightarrow> f a s = Some s' \<Longrightarrow> P s'"
    and "P s" and "for_opt as f s = Some s'"
  shows "P s'"
  using assms
proof (induction as arbitrary: s)
  case Nil
  then show ?case by simp
next
  case (Cons a as)
  from Cons.prems(3) obtain s1 where 1: "f a s = Some s1" and 2: "for_opt as f s1 = Some s'"
    by (cases "f a s") simp_all
  have "P s1" using Cons.prems(1) [OF _ Cons.prems(2) 1] by simp
  moreover have "P t'" if "b \<in> set as" "P t" "f b t = Some t'" for b t t'
    using Cons.prems(1) [of b t t'] that by simp
  ultimately show ?case using Cons.IH [of s1] 2 by blast
qed

lemma label_pass_ok:
  assumes "labels_valid st" and "frame_ok img st" and "0 < clustersNumber st"
    and "label_pass img q st = Some new"
  shows "new_labels_ok (clustersNumber st) (pixelsNumber st) new"
proof -
  let ?n = "clustersNumber st"
  let ?m = "nat (rows img * cols img)"
  have m: "pixelsNumber st = ?m" and len: "length (pixelCluster st) = ?m"
    using assms(2) by (simp_all add: frame_ok_def)
  have pc: "\<forall>v \<in> set (pixelCluster st). valid_label ?n v"
    using assms(1) by (simp add: labels_valid_def)
  have row: "pass_ok ?n ?m an'"
    if "y \<in> set [0 .. rows img - 1]" "pass_ok ?n ?m an"
      "label_row img (pixelCluster st) q y an = Some an'" for y an an'
  proof (rule for_opt_inv [where P = "pass_ok ?n ?m", OF _ that(2) that(3) [unfolded label_row_def]])
    fix x s s'
    assume "x \<in> set [0 .. cols img - 1]" "pass_ok ?n ?m s"
      "label_segment img (pixelCluster st) q y x s = Some s'"
    moreover from this(1) that(1) have "in_image img x y" by (simp add: in_image_def)
    ultimately show "pass_ok ?n ?m s'"
      using label_segment_ok [OF pc len] by blast
  qed
  have start: "pass_ok ?n ?m (0, replicate (pixelsNumber st) (- 1))"
    using assms(3) m by (simp add: pass_ok_def new_labels_ok_def valid_label_def)
  from assms(4) obtain an where an: "for_opt [0 .. rows img - 1]
      (label_row img (pixelCluster st) q) (0, replicate (pixelsNumber st) (- 1)) = Some an"
    and new: "new = snd an"
    by (auto simp: label_pass_def)
  have "pass_ok ?n ?m an"
    by (rule for_opt_inv [where P = "pass_ok ?n ?m", OF _ start an]) (rule row)
  then show ?thesis by (simp add: pass_ok_def new m)
qed

lemma reset_centre_labelling: "labelling (reset_centre st c) = labelling st"
  by (simp add: reset_centre_def labelling_def)

lemma recomputeCentres_labelling:
  assumes "recomputeCentres img st = Inr st'"
  shows "labelling st' = labelling st"
proof -
  have "labelling (foldl reset_centre st cs) = labelling st" for cs
    by (rule foldl_keeps) (rule reset_centre_labelling)
  with normalizeCentres_labelling [OF assms [unfolded recomputeCentres_def]]
  show ?thesis by (simp add: accumulate_labelling)
qed

lemma copy_labels_ok:
  assumes "new_labels_ok n m new" and "\<forall>v \<in> set pc. valid_label n v"
  shows "\<forall>v \<in> set (foldl (copy_label new) pc [0..<m]). valid_label n v"
proof (rule foldl_inv [where P = "\<lambda>pc. \<forall>v \<in> set pc. valid_label n v"])
  fix pc' k assume "k \<in> set [0..<m]" and ok: "\<forall>v \<in> set pc'. valid_label n v"
  then have "new ! k \<in> set new" using assms(1) by (simp add: new_labels_ok_def)
  then have "valid_label n (new ! k)" using assms(1) by (simp add: new_labels_ok_def)
  then show "\<forall>v \<in> set (copy_label new pc' k). valid_label n v"
    unfolding copy_label_def by (rule valid_update [OF ok])
qed (rule assms(2))

lemma enforceConnectivity_valid:
  assumes "labels_valid st" and "frame_ok img st"
    and "enforceConnectivity img st = Some (Inr st4)"
  shows "labels_valid st4"
proof -
  from assms(3) have n: "0 < clustersNumber st"
    by (cases "clustersNumber st = 0") (simp_all add: enforceConnectivity_def)
  from assms(3) n obtain new where new: "label_pass img (clustersAverageSize st) st = Some new"
    and st4: "store_labels img st new = Inr st4"
    by (auto simp: enforceConnectivity_def)
  let ?st1 = "st\<lparr>pixelCluster :=
      foldl (copy_label new) (pixelCluster st) [0..<pixelsNumber st]\<rparr>"
  have "new_labels_ok (clustersNumber st) (pixelsNumber st) new"
    by (rule label_pass_ok [OF assms(1,2) n new])
  then have "labels_valid ?st1"
    using copy_labels_ok assms(1) by (simp add: labels_valid_def)
  moreover have "labelling st4 = labelling ?st1"
    by (rule recomputeCentres_labelling) (use st4 in \<open>simp add: store_labels_def\<close>)
  ultimately show ?thesis using labels_valid_labelling by blast
qed

text \<open>
  C2. After a reseed every entry of the Assignment Map is the sentinel. An assignment
  step over centres that exist, Orphan Recovery, a whole pass of the loop and a whole
  call of \<^verbatim>\<open>createSuperpixels\<close> (started from valid labels or with a reseed) keep every
  entry either the sentinel \<open>-1\<close> or an index in \<open>[0, clustersNumber)\<close>. So does
  \<^verbatim>\<open>enforceConnectivity\<close>, whenever it returns, on an object whose vectors have the size
  of the image.
\<close>

theorem labels_stay_valid:
  "(must_reseed videoMode keyFramesRatio connectedFrames st = Inr True \<and>
    initializeSLICData img S w thr videoMode keyFramesRatio randomGen connectedFrames st
      = Some (Inr seeded)
    \<longrightarrow> labels_valid seeded \<and> set (pixelCluster seeded) \<subseteq> {- 1}) \<and>
   (labels_valid st \<and> set order \<subseteq> {..<clustersNumber st}
    \<longrightarrow> labels_valid (assignPixels order img S videoMode st)) \<and>
   (labels_valid st \<longrightarrow> labels_valid (orphanRecovery contourMoments img st)) \<and>
   (labels_valid st \<and> schedule_ok schedule \<and>
    loop_body schedule contourMoments img S iterationNumber thr SLICMode videoMode (go, st)
      = Inr (go', passed)
    \<longrightarrow> labels_valid passed) \<and>
   ((labels_valid st \<or> must_reseed videoMode keyFramesRatio connectedFrames st = Inr True) \<and>
    schedule_ok schedule \<and>
    createSuperpixels schedule contourMoments img S w iterationNumber thr SLICMode videoMode
      keyFramesRatio randomGen connectedFrames st = Some (Inr finished)
    \<longrightarrow> labels_valid finished) \<and>
   (labels_valid st \<and> frame_ok img st \<and> enforceConnectivity img st = Some (Inr enforced)
    \<longrightarrow> labels_valid enforced)"
proof (intro conjI impI)
  assume a: "must_reseed videoMode keyFramesRatio connectedFrames st = Inr True \<and>
    initializeSLICData img S w thr videoMode keyFramesRatio randomGen connectedFrames st
      = Some (Inr seeded)"
  then show "labels_valid seeded" using initializeSLICData_valid by blast
  have "pixelCluster seeded = replicate (nat (rows img * cols img)) (- 1)"
    by (rule reseed_untouched [OF conjunct1 [OF a] conjunct2 [OF a]])
  then show "set (pixelCluster seeded) \<subseteq> {- 1}" by auto
next
  assume "labels_valid st \<and> set order \<subseteq> {..<clustersNumber st}"
  then show "labels_valid (assignPixels order img S videoMode st)"
    using assignPixels_valid(1) by blast
next
  assume "labels_valid st"
  then show "labels_valid (orphanRecovery contourMoments img st)"
    by (rule orphanRecovery_valid)
next
  assume "labels_valid st \<and> schedule_ok schedule \<and>
    loop_body schedule contourMoments img S iterationNumber thr SLICMode videoMode (go, st)
      = Inr (go', passed)"
  then show "labels_valid passed"
    using loop_body_valid [of "(go, st)" schedule contourMoments img S iterationNumber thr
        SLICMode videoMode "(go', passed)"] by simp
next
  assume "(labels_valid st \<or> must_reseed videoMode keyFramesRatio connectedFrames st = Inr True) \<and>
    schedule_ok schedule \<and>
    createSuperpixels schedule contourMoments img S w iterationNumber thr SLICMode videoMode
      keyFramesRatio randomGen connectedFrames st = Some (Inr finished)"
  then show "labels_valid finished" using createSuperpixels_valid by blast
next
  assume "labels_valid st \<and> frame_ok img st \<and> enforceConnectivity img st = Some (Inr enforced)"
  then show "labels_valid enforced" using enforceConnectivity_valid by blast
qed


lemma assigned_3x3_runs:
  "(case initializeSLICData gray_3x3 2 1 0 INDEPENDENT 1 no_noise False assigned_3x3 of
      Some (Inr s) \<Rightarrow> True | _ \<Rightarrow> False) = True"
  "(case loop_body serial no_contours gray_3x3 2 1 0 FIXED_ITERATIONS INDEPENDENT
           (False, assigned_3x3) of
      Inr gs \<Rightarrow> fst gs | Inl e \<Rightarrow> False) = True"
  "(case createSuperpixels serial no_contours gray_3x3 2 1 1 0 FIXED_ITERATIONS INDEPENDENT 1
           no_noise False assigned_3x3 of
      Some (Inr s) \<Rightarrow> True | _ \<Rightarrow> False) = True"
  "(case enforceConnectivity gray_3x3 assigned_3x3 of
      Some (Inr s) \<Rightarrow> True | _ \<Rightarrow> False) = True"
  by code_simp+

theorem labels_stay_valid_witness:
  "labels_valid assigned_3x3 \<and> frame_ok gray_3x3 assigned_3x3 \<and> schedule_ok serial \<and>
   (\<exists>seeded. initializeSLICData gray_3x3 2 1 0 INDEPENDENT 1 no_noise False assigned_3x3
        = Some (Inr seeded) \<and> labels_valid seeded) \<and>
   labels_valid (assignPixels [0] gray_3x3 2 INDEPENDENT assigned_3x3) \<and>
   (\<exists>passed. loop_body serial no_contours gray_3x3 2 1 0 FIXED_ITERATIONS INDEPENDENT
        (False, assigned_3x3) = Inr (True, passed) \<and> labels_valid passed) \<and>
   (\<exists>finished. createSuperpixels serial no_contours gray_3x3 2 1 1 0 FIXED_ITERATIONS
        INDEPENDENT 1 no_noise False assigned_3x3 = Some (Inr finished) \<and>
        labels_valid finished) \<and>
   (\<exists>enforced. enforceConnectivity gray_3x3 assigned_3x3 = Some (Inr enforced) \<and>
        labels_valid enforced)"
proof -
  have valid: "labels_valid assigned_3x3"
    by (simp add: labels_valid_def valid_label_def assigned_3x3_def seeded_3x3_def)
  have frame: "frame_ok gray_3x3 assigned_3x3"
    by (simp add: frame_ok_def assigned_3x3_def seeded_3x3_def gray_3x3_def)
  have sched: "schedule_ok serial"
    by (auto simp: schedule_ok_def serial_def)
  have order: "set [0 :: nat] \<subseteq> {..<clustersNumber assigned_3x3}"
    by (simp add: assigned_3x3_def seeded_3x3_def)
  have reseed: "must_reseed INDEPENDENT 1 False assigned_3x3 = Inr True"
    by (simp add: must_reseed_def)
  obtain seeded where a: "initializeSLICData gray_3x3 2 1 0 INDEPENDENT 1 no_noise False
      assigned_3x3 = Some (Inr seeded)"
    using assigned_3x3_runs(1) by (auto split: option.splits sum.splits)
  obtain passed where b: "loop_body serial no_contours gray_3x3 2 1 0 FIXED_ITERATIONS
      INDEPENDENT (False, assigned_3x3) = Inr (True, passed)"
    using assigned_3x3_runs(2) by (auto split: sum.splits simp: prod_eq_iff)
  obtain finished where c: "createSuperpixels serial no_contours gray_3x3 2 1 1 0
      FIXED_ITERATIONS INDEPENDENT 1 no_noise False assigned_3x3 = Some (Inr finished)"
    using assigned_3x3_runs(3) by (auto split: option.splits sum.splits)
  obtain enforced where d: "enforceConnectivity gray_3x3 assigned_3x3 = Some (Inr enforced)"
    using assigned_3x3_runs(4) by (auto split: option.splits sum.splits)
  note inst = labels_stay_valid
    [where st = assigned_3x3 and img = gray_3x3 and S = 2 and w = 1 and thr = 0
       and videoMode = INDEPENDENT and keyFramesRatio = 1 and connectedFrames = False
       and randomGen = no_noise and schedule = serial and contourMoments = no_contours
       and iterationNumber = 1 and SLICMode = FIXED_ITERATIONS and order = "[0]"
       and go = False and go' = True and seeded = seeded and passed = passed
       and finished = finished and enforced = enforced]
  from inst valid frame sched order reseed a b c d
  have "labels_valid seeded" "labels_valid (assignPixels [0] gray_3x3 2 INDEPENDENT assigned_3x3)"
    "labels_valid passed" "labels_valid finished" "labels_valid enforced"
    by blast+
  with valid frame sched a b c d show ?thesis by blast
qed

end
